theory Spec2Isabelle
  imports Complex_Main "HOL-Library.Char_ord" "HOL-Library.List_Lexorder"
    "HOL-Library.Product_Lexorder"
begin

section \<open>JavaScript and d3 primitives used by the reports\<close>

text \<open>
  Strings are compared as JavaScript compares them with \<open><\<close>: lexicographically by
  character code, case-sensitively. That is the order of \<open>HOL-Library.List_Lexorder\<close>
  over \<open>HOL-Library.Char_ord\<close>.

  \<open>ascending(a, b)\<close> of d3-array, on values that are neither null nor NaN:
  \<^verbatim>\<open>a < b ? -1 : a > b ? 1 : a >= b ? 0 : NaN\<close>
\<close>

definition ascending :: "'a::linorder \<Rightarrow> 'a \<Rightarrow> int" where
  "ascending a b = (if a < b then - 1 else if a > b then 1 else 0)"

text \<open>\<open>x || y\<close> on two numbers: \<open>x\<close> unless it is zero.\<close>

definition js_or :: "int \<Rightarrow> int \<Rightarrow> int" where
  "js_or x y = (if x \<noteq> 0 then x else y)"

text \<open>
  \<open>Array.prototype.sort(compare)\<close> is a stable sort: an element moves in front of
  another one only if the comparator puts it strictly first.
\<close>

fun insert_by :: "('a \<Rightarrow> 'a \<Rightarrow> int) \<Rightarrow> 'a \<Rightarrow> 'a list \<Rightarrow> 'a list" where
  "insert_by cmp x [] = [x]"
| "insert_by cmp x (y # ys) = (if cmp x y \<le> 0 then x # y # ys else y # insert_by cmp x ys)"

definition sort_by :: "('a \<Rightarrow> 'a \<Rightarrow> int) \<Rightarrow> 'a list \<Rightarrow> 'a list" where
  "sort_by cmp xs = foldr (insert_by cmp) xs []"

text \<open>
  \<open>Array.from(new Set(xs))\<close>: the distinct elements, each at its first occurrence.
\<close>

fun set_add :: "'a \<Rightarrow> 'a list \<Rightarrow> 'a list" where
  "set_add x [] = [x]"
| "set_add x (y # ys) = (if x = y then y # ys else y # set_add x ys)"

definition array_from_set :: "'a list \<Rightarrow> 'a list" where
  "array_from_set xs = foldl (\<lambda>s x. set_add x s) [] xs"

text \<open>
  \<open>group(values, keyof)\<close> of d3-array fills a Map in one pass over the values: a value
  whose key is already there is pushed on that key's array, a new key is appended with
  a one-element array. \<open>Array.from\<close> of the Map lists the entries in insertion order.
\<close>

fun group_ins :: "'k \<Rightarrow> 'a \<Rightarrow> ('k \<times> 'a list) list \<Rightarrow> ('k \<times> 'a list) list" where
  "group_ins k v [] = [(k, [v])]"
| "group_ins k v ((k', vs) # gs) =
     (if k = k' then (k', vs @ [v]) # gs else (k', vs) # group_ins k v gs)"

definition d3_group :: "('a \<Rightarrow> 'k) \<Rightarrow> 'a list \<Rightarrow> ('k \<times> 'a list) list" where
  "d3_group keyof vals = foldl (\<lambda>groups v. group_ins (keyof v) v groups) [] vals"

text \<open>\<open>String(n)\<close> for a natural number.\<close>

definition digit_char :: "nat \<Rightarrow> char" where
  "digit_char d = char_of (of_char (CHR ''0'') + d)"

fun string_of_nat :: "nat \<Rightarrow> string" where
  "string_of_nat n =
     (if 10 \<le> n then string_of_nat (n div 10) @ [digit_char (n mod 10)]
      else [digit_char n])"

declare string_of_nat.simps [simp del]

subsection \<open>Dates\<close>

text \<open>
  A \<open>Date\<close> is its \<open>valueOf()\<close>: the milliseconds since 1970-01-01T00:00Z.
  \<open>utcFormat("%Y-%m-%d")\<close> of d3-time-format prints the UTC calendar day; the
  calendar computation is the usual days-to-civil conversion, and \<open>pad\<close> is
  d3-time-format's.
\<close>

definition msPerDay :: int where
  "msPerDay = 86400000"

definition civil_from_days :: "int \<Rightarrow> int \<times> int \<times> int" where
  "civil_from_days z0 =
     (let z = z0 + 719468;
          era = z div 146097;
          doe = z - era * 146097;
          yoe = (doe - doe div 1460 + doe div 36524 - doe div 146096) div 365;
          y = yoe + era * 400;
          doy = doe - (365 * yoe + yoe div 4 - yoe div 100);
          mp = (5 * doy + 2) div 153;
          d = doy - (153 * mp + 2) div 5 + 1;
          m = (if mp < 10 then mp + 3 else mp - 9)
      in (if m \<le> 2 then y + 1 else y, m, d))"

definition pad :: "int \<Rightarrow> nat \<Rightarrow> string" where
  "pad v width =
     (let s = string_of_nat (nat \<bar>v\<bar>)
      in (if v < 0 then ''-'' else '''') @ replicate (width - length s) (CHR ''0'') @ s)"

definition js_rem :: "int \<Rightarrow> int \<Rightarrow> int" where
  "js_rem a b = sgn a * (\<bar>a\<bar> mod \<bar>b\<bar>)"

definition yearMonthDayFormat :: "int \<Rightarrow> string" where
  "yearMonthDayFormat t =
     (case civil_from_days (t div msPerDay) of
        (y, m, d) \<Rightarrow> pad (js_rem y 10000) 4 @ ''-'' @ pad m 2 @ ''-'' @ pad d 2)"

text \<open>
  \<open>utcDays(start, stop, 1)\<close> of d3-time: every UTC midnight \<open>d\<close> with
  \<open>start \<le> d < stop\<close>. \<open>utcDay.ceil\<close> floors \<open>date - 1\<close> and adds a day.
\<close>

definition utcDay_floor :: "int \<Rightarrow> int" where
  "utcDay_floor t = (t div msPerDay) * msPerDay"

definition utcDay_ceil :: "int \<Rightarrow> int" where
  "utcDay_ceil t = utcDay_floor (utcDay_floor (t - 1) + msPerDay)"

lemma day_floor_advance: "0 < D \<Longrightarrow> c < (c + D) div D * D" for c D :: int
proof -
  assume D: "0 < D"
  have "(c + D) div D * D = c div D * D + D"
    using D by (simp add: algebra_simps)
  also have "c div D * D = c - c mod D"
    by (simp add: minus_mod_eq_div_mult)
  finally have e: "(c + D) div D * D = c - c mod D + D" .
  have "c mod D < D" using D by simp
  with e show ?thesis by linarith
qed

function utcDays_from :: "int \<Rightarrow> int \<Rightarrow> int list" where
  "utcDays_from cur stop =
     (if cur < stop then cur # utcDays_from (utcDay_floor (cur + msPerDay)) stop else [])"
  by pat_completeness auto
termination
proof (relation "measure (\<lambda>(cur, stop). nat (stop - cur))")
  show "wf (measure (\<lambda>(cur, stop). nat (stop - cur)))"
    by simp
next
  fix cur stop :: int
  assume "cur < stop"
  have "(0::int) < msPerDay"
    by (simp add: msPerDay_def)
  then have "cur < utcDay_floor (cur + msPerDay)"
    unfolding utcDay_floor_def by (rule day_floor_advance)
  with \<open>cur < stop\<close>
  show "((utcDay_floor (cur + msPerDay), stop), cur, stop)
          \<in> measure (\<lambda>(cur, stop). nat (stop - cur))"
    by simp
qed

declare utcDays_from.simps [simp del]

definition utcDays :: "int \<Rightarrow> int \<Rightarrow> int list" where
  "utcDays start stop = utcDays_from (utcDay_ceil start) stop"

section \<open>Daily auths report\<close>

text \<open>
  The fields that \<open>Result\<close> (daily auths) and \<open>DailyDropoffsRow\<close> (daily dropoffs)
  have in common, once processed.
\<close>

record AppFields =
  issuer :: string
  friendly_name :: string
  iaa :: "string option"
  agency :: string

record ProcessedResult = AppFields +
  count :: int
  ial :: nat
  date :: int

text \<open>
  A \<open>Result\<close> as it comes out of the JSON: \<open>agency\<close> may be null or empty, and
  \<open>process\<close> guards it.
\<close>

record Result =
  r_count :: int
  r_ial :: nat
  r_issuer :: string
  r_iaa :: "string option"
  r_friendly_name :: string
  r_agency :: "string option"

record DailyAuthsReportData =
  results :: "Result list"
  report_start :: int
  report_finish :: int

text \<open>\<open>s || dflt\<close> on a string that may be null: null and the empty string are falsy.\<close>

definition str_or :: "string option \<Rightarrow> string \<Rightarrow> string" where
  "str_or s dflt = (case s of None \<Rightarrow> dflt | Some v \<Rightarrow> if v = '''' then dflt else v)"

definition process :: "DailyAuthsReportData \<Rightarrow> ProcessedResult list" where
  "process report =
     (let date = report_start report
      in map (\<lambda>r. \<lparr> issuer = r_issuer r, friendly_name = r_friendly_name r,
                     iaa = r_iaa r, agency = str_or (r_agency r) ''(No Agency)'',
                     count = r_count r, ial = r_ial r, date = date \<rparr>)
           (results report))"

text \<open>
  JavaScript numbers, as far as the ratios of the reports need them: a quotient of two
  integer counts is finite, or one of the three special values that division by zero
  produces.
\<close>

datatype jsnum = Finite rat | PosInfinity | NegInfinity | NaN

text \<open>
  A table cell is a string, a number or an element; the elements keep what they are
  built from.
\<close>

datatype Cell =
    Text string
  | Num int
  | Span string "string option"
  | Link string string
  | Th nat string
  | ColorSpan string string string
  | CsvSpan "string list" string
  | CountTd int jsnum
  | PercentTd jsnum
  | FootTd "int option"

record TableData =
  header :: "Cell list"
  body :: "Cell list list"
  footer :: "Cell list option"

text \<open>\<open>!filterAgency\<close> and \<open>!filterIal\<close>: undefined, the empty string and 0 are falsy.\<close>

definition no_agency_filter :: "string option \<Rightarrow> bool" where
  "no_agency_filter f = (f = None \<or> f = Some '''')"

definition no_ial_filter :: "nat option \<Rightarrow> bool" where
  "no_ial_filter f = (f = None \<or> f = Some 0)"

definition filterResults ::
  "ProcessedResult list option \<Rightarrow> string option \<Rightarrow> nat option \<Rightarrow> ProcessedResult list" where
  "filterResults rs filterAgency filterIal =
     filter (\<lambda>d. (no_agency_filter filterAgency \<or> Some (agency d) = filterAgency)
                \<and> (no_ial_filter filterIal \<or> Some (ial d) = filterIal))
       (case rs of None \<Rightarrow> [] | Some xs \<Rightarrow> xs)"

definition daysOf :: "ProcessedResult list \<Rightarrow> int list" where
  "daysOf filteredResults =
     sort_by (\<lambda>a b. a - b) (array_from_set (map date filteredResults))"

definition friendlyNames :: "ProcessedResult list \<Rightarrow> (string \<rightharpoonup> string)" where
  "friendlyNames filteredResults =
     foldl (\<lambda>m d. m(issuer d \<mapsto> friendly_name d)) Map.empty filteredResults"

definition dayCount :: "ProcessedResult list \<Rightarrow> int \<Rightarrow> int" where
  "dayCount data day =
     (case filter (\<lambda>d. date d = day) data of [] \<Rightarrow> 0 | d # _ \<Rightarrow> count d)"

text \<open>
  \<open>tabulate\<close> of the daily auths report. \<open>grouped\<close> is the nested Map of
  \<open>group(filteredResults, agency, issuer, ial)\<close> as arrays of entries, and
  \<open>tabulateRow\<close> the innermost callback, which builds one body row.
\<close>

definition grouped ::
  "ProcessedResult list \<Rightarrow> (string \<times> (string \<times> (nat \<times> ProcessedResult list) list) list) list"
  where
  "grouped filteredResults =
     map (\<lambda>(a, bin). (a, map (\<lambda>(i, bin'). (i, d3_group ial bin')) (d3_group issuer bin)))
       (d3_group agency filteredResults)"

definition tabulateRow ::
  "int list \<Rightarrow> (string \<rightharpoonup> string) \<Rightarrow> string \<Rightarrow> string \<Rightarrow> nat \<Rightarrow> ProcessedResult list
     \<Rightarrow> Cell list" where
  "tabulateRow days issuerToFriendlyName a i l data =
     (let dayCounts = map (dayCount data) days
      in [Text a, Span i (issuerToFriendlyName i), Text (string_of_nat l)]
         @ map Num dayCounts
         @ [Num (foldl (\<lambda>d total. d + total) 0 dayCounts)])"

definition tabulate ::
  "ProcessedResult list option \<Rightarrow> string option \<Rightarrow> nat option \<Rightarrow> TableData" where
  "tabulate rs filterAgency filterIal =
     (let filteredResults = filterResults rs filterAgency filterIal;
          days = daysOf filteredResults;
          header = [Text ''Agency'', Text ''App'', Text ''IAL'']
                   @ map (\<lambda>d. Text (yearMonthDayFormat d)) days @ [Text ''Total''];
          issuerToFriendlyName = friendlyNames filteredResults;
          body = concat (map (\<lambda>(agency, issuers).
                   concat (map (\<lambda>(issuer, ials).
                     map (\<lambda>(ial, data).
                            tabulateRow days issuerToFriendlyName agency issuer ial data)
                       ials)
                     (sort_by (\<lambda>(issuerA, _) (issuerB, _). ascending issuerA issuerB) issuers)))
                   (sort_by (\<lambda>(agencyA, _) (agencyB, _). ascending agencyA agencyB)
                      (grouped filteredResults)))
      in \<lparr> header = header, body = body, footer = None \<rparr>)"

text \<open>
  \<open>tabulateSumByAgency\<close>: \<open>rolledup\<close> is the nested Map of \<open>rollup\<close> as arrays of
  entries, \<open>sumRow\<close> the callback that builds one body row, and \<open>ialDays.get(k)\<close> a
  lookup in the entries. \<open>agencyUrl agency\<close> stands for the link target that
  \<open>pathWithParams\<close> builds from the page location with the \<open>agency\<close> parameter set
  (the url-params module is outside this development).
\<close>

definition filterByIal :: "ProcessedResult list option \<Rightarrow> nat option \<Rightarrow> ProcessedResult list" where
  "filterByIal rs filterIal =
     filter (\<lambda>d. no_ial_filter filterIal \<or> Some (ial d) = filterIal)
       (case rs of None \<Rightarrow> [] | Some xs \<Rightarrow> xs)"

definition rolledup ::
  "ProcessedResult list \<Rightarrow> (string \<times> (nat \<times> (string \<times> int) list) list) list" where
  "rolledup filteredResults =
     map (\<lambda>(a, bin). (a, map (\<lambda>(l, bin'). (l,
            map (\<lambda>(day, bin''). (day, foldl (\<lambda>sum d. sum + count d) 0 bin''))
              (d3_group (\<lambda>d. yearMonthDayFormat (date d)) bin')))
          (d3_group ial bin)))
       (d3_group agency filteredResults)"

definition sumRow ::
  "(string \<Rightarrow> string) \<Rightarrow> int list \<Rightarrow> string \<Rightarrow> nat \<Rightarrow> (string \<times> int) list \<Rightarrow> Cell list" where
  "sumRow agencyUrl days a l ialDays =
     (let dayCounts = map (\<lambda>date. case map_of ialDays (yearMonthDayFormat date) of
                                     None \<Rightarrow> 0 | Some v \<Rightarrow> v) days
      in [Link (agencyUrl a) a, Text (string_of_nat l)]
         @ map Num dayCounts
         @ [Num (foldl (\<lambda>d total. d + total) 0 dayCounts)])"

definition tabulateSumByAgency ::
  "(string \<Rightarrow> string) \<Rightarrow> ProcessedResult list option \<Rightarrow> nat option \<Rightarrow> TableData" where
  "tabulateSumByAgency agencyUrl rs filterIal =
     (let filteredResults = filterByIal rs filterIal;
          days = daysOf filteredResults;
          header = [Text ''Agency'', Text ''IAL'']
                   @ map (\<lambda>d. Text (yearMonthDayFormat d)) days @ [Text ''Total''];
          body = concat (map (\<lambda>(agency, ials).
                   map (\<lambda>(ial, ialDays). sumRow agencyUrl days agency ial ialDays) ials)
                   (sort_by (\<lambda>(agencyA, _) (agencyB, _). ascending agencyA agencyB)
                      (rolledup filteredResults)))
      in \<lparr> header = header, body = body, footer = None \<rparr>)"

text \<open>
  The test suite compares table bodies after \<open>simplifyVNodes\<close>, which replaces the
  App element of each row by its \<open>title\<close>.
\<close>

fun simplifyVNodes_row :: "Cell list \<Rightarrow> Cell list" where
  "simplifyVNodes_row (a # Span title child # rest) = a # Text title # rest"
| "simplifyVNodes_row row = row"

definition simplifyVNodes :: "Cell list list \<Rightarrow> Cell list list" where
  "simplifyVNodes b = map simplifyVNodes_row b"

text \<open>The width of a row in table columns: a \<open>th\<close> counts its \<open>colSpan\<close>.\<close>

fun colSpan :: "Cell \<Rightarrow> nat" where
  "colSpan (Th n title) = n"
| "colSpan c = 1"

definition columns :: "Cell list \<Rightarrow> nat" where
  "columns row = sum_list (map colSpan row)"

section \<open>Daily dropoffs report\<close>

text \<open>
  The two funnels, and the steps of the proofing flow in their order; \<open>STEPS\<close> pairs
  the key of each step with its title. The blanket funnel starts at the fourth step.
\<close>

datatype FunnelMode = OVERALL | BLANKET

datatype Step =
    WELCOME | AGREEMENT | CAPTURE_DOCUMENT | CAP_DOC_SUBMIT | SSN | VERIFY_INFO
  | VERIFY_SUBMIT | PHONE | ENCRYPT | PERSONAL_KEY | VERIFIED

definition STEPS :: "(Step \<times> string) list" where
  "STEPS =
     [(WELCOME, ''Welcome''), (AGREEMENT, ''Agreement''),
      (CAPTURE_DOCUMENT, ''Capture Document''), (CAP_DOC_SUBMIT, ''Submit Document''),
      (SSN, ''SSN''), (VERIFY_INFO, ''Verify Info''), (VERIFY_SUBMIT, ''Verify Submit''),
      (PHONE, ''Phone''), (ENCRYPT, ''Encrypt''), (PERSONAL_KEY, ''Personal Key''),
      (VERIFIED, ''Verified'')]"

text \<open>
  A \<open>DailyDropoffsRow\<close> carries one count per step; a step missing from the row
  (undefined or null) is \<open>None\<close>.
\<close>

record DailyDropoffsRow = AppFields +
  row_start :: int
  row_finish :: int
  steps :: "Step \<Rightarrow> int option"

text \<open>
  \<open>csvParse\<close> with \<open>autoType\<close> does not leave every field a string: an empty or
  blank field becomes null, the field \<open>false\<close> the boolean, \<open>NaN\<close> the number NaN and
  a numeric field a number, so that a field such as \<open>0\<close> is the number 0. \<open>process\<close>
  casts the parsed row to \<open>DailyDropoffsRow\<close>, whose issuer, friendly name and agency
  are strings, and guards the three fields with \<open>||\<close>. A \<open>Field\<close> is what the guard
  tells apart: a string, or one of the values that are not strings and that JavaScript
  takes for false (null, the number 0, NaN, the boolean false). The other values of
  \<open>autoType\<close> (a number other than 0, the boolean true, a date) pass the guard as
  they are and are no strings; a row with such a field is not a \<open>DailyDropoffsRow\<close>
  and has no counterpart here.
\<close>

datatype Field = FNull | FString string | FZero | FNaN | FFalse

text \<open>A row as \<open>csvParse\<close> with \<open>autoType\<close> returns it.\<close>

record ParsedRow =
  p_issuer :: Field
  p_friendly_name :: Field
  p_iaa :: "string option"
  p_agency :: Field
  p_start :: int
  p_finish :: int
  p_steps :: "Step \<Rightarrow> int option"

text \<open>
  \<open>field || dflt\<close>: the field when JavaScript takes it for true, which of the values of
  \<open>Field\<close> only a string that is not empty is.
\<close>

fun field_or :: "Field \<Rightarrow> string \<Rightarrow> string" where
  "field_or (FString v) dflt = (if v = '''' then dflt else v)"
| "field_or FNull dflt = dflt"
| "field_or FZero dflt = dflt"
| "field_or FNaN dflt = dflt"
| "field_or FFalse dflt = dflt"

text \<open>
  \<open>process\<close> of the daily dropoffs report; \<open>csvParse\<close> stands for d3-dsv's
  \<open>csvParse(str, autoType)\<close>.
\<close>

definition process_dropoffs :: "(string \<Rightarrow> ParsedRow list) \<Rightarrow> string \<Rightarrow> DailyDropoffsRow list" where
  "process_dropoffs csvParse str =
     map (\<lambda>r. \<lparr> issuer = field_or (p_issuer r) ''(No Issuer)'',
                 friendly_name = field_or (p_friendly_name r) ''(No App)'',
                 iaa = p_iaa r,
                 agency = field_or (p_agency r) ''(No Agency)'',
                 row_start = p_start r, row_finish = p_finish r, steps = p_steps r \<rparr>)
       (csvParse str)"

definition funnelSteps :: "FunnelMode \<Rightarrow> (Step \<times> string) list" where
  "funnelSteps funnelMode = (if funnelMode = OVERALL then STEPS else drop 3 STEPS)"

text \<open>
  \<open>a / b\<close> on two integer counts, and \<open>x || 0\<close>, which replaces the falsy numbers:
  NaN and zero.
\<close>

definition js_div :: "int \<Rightarrow> int \<Rightarrow> jsnum" where
  "js_div a b =
     (if b = 0 then (if a = 0 then NaN else if 0 < a then PosInfinity else NegInfinity)
      else Finite (of_int a / of_int b))"

definition or_zero :: "jsnum \<Rightarrow> jsnum" where
  "or_zero x = (if x = NaN \<or> x = Finite 0 then Finite 0 else x)"

text \<open>\<open>row[key] || 0\<close> on a count that may be missing.\<close>

definition count_or_zero :: "int option \<Rightarrow> int" where
  "count_or_zero c = (case c of None \<Rightarrow> 0 | Some v \<Rightarrow> v)"

text \<open>
  \<open>toStepCounts\<close>: the count of every step of the funnel, and its ratio to the count of
  the funnel's first step and to the count of the step before it.
\<close>

record StepCount =
  step :: Step
  step_count :: int
  percentOfFirst :: jsnum
  percentOfPrevious :: jsnum

definition toStepCounts :: "DailyDropoffsRow \<Rightarrow> FunnelMode \<Rightarrow> StepCount list" where
  "toStepCounts row funnelMode =
     (let stps = funnelSteps funnelMode;
          firstCount = count_or_zero (steps row (fst (stps ! 0)))
      in map (\<lambda>(idx, (key, title)).
           (let count = count_or_zero (steps row key);
                prevCount = (if idx > 0 then count_or_zero (steps row (fst (stps ! (idx - 1))))
                             else firstCount)
            in \<lparr> step = key, step_count = count,
                 percentOfFirst = or_zero (js_div count firstCount),
                 percentOfPrevious = or_zero (js_div count prevCount) \<rparr>))
           (enumerate 0 stps))"

text \<open>
  The Map \<open>steps\<close> that \<open>aggregate\<close> fills for the rows of one issuer: every row adds
  its count of every step of \<open>STEPS\<close> to the count the Map holds.
\<close>

definition sumSteps :: "DailyDropoffsRow list \<Rightarrow> (Step \<Rightarrow> int option)" where
  "sumSteps bin =
     foldl (\<lambda>acc row.
              foldl (\<lambda>acc (key, title).
                       (let oldCount = count_or_zero (acc key)
                        in acc(key \<mapsto> count_or_zero (steps row key) + oldCount)))
                acc STEPS)
       Map.empty bin"

text \<open>
  \<open>aggregate\<close>: \<open>binRow\<close> is the callback of its \<open>map\<close>, which builds the output row
  of one issuer from the issuer's rows.
\<close>

definition binRow :: "DailyDropoffsRow list \<Rightarrow> DailyDropoffsRow" where
  "binRow bin =
     \<lparr> issuer = issuer (hd bin), friendly_name = friendly_name (hd bin),
       iaa = iaa (hd bin), agency = agency (hd bin),
       row_start = row_start (hd bin), row_finish = row_finish (hd bin),
       steps = sumSteps bin \<rparr>"

definition aggregate :: "DailyDropoffsRow list \<Rightarrow> DailyDropoffsRow list" where
  "aggregate rows =
     map (\<lambda>(_, bin). binRow bin)
       (sort_by (\<lambda>(issuerA, binA) (issuerB, binB).
                   js_or (ascending issuerA issuerB)
                         (ascending (friendly_name (hd binA)) (friendly_name (hd binB))))
          (d3_group issuer rows))"

text \<open>
  The cells that the funnel tables make of the step counts of a row (a count cell for
  every step and, after the first step, a percent cell), and the header cells of the
  steps.
\<close>

definition stepCells :: "DailyDropoffsRow \<Rightarrow> FunnelMode \<Rightarrow> Cell list" where
  "stepCells row funnelMode =
     concat (map (\<lambda>(idx, sc).
                    CountTd (step_count sc) (percentOfFirst sc)
                    # (if idx > 0 then [PercentTd (percentOfFirst sc)] else []))
               (enumerate 0 (toStepCounts row funnelMode)))"

definition stepHeaders :: "FunnelMode \<Rightarrow> Cell list" where
  "stepHeaders funnelMode =
     map (\<lambda>(idx, (key, title)). Th (if idx = 0 then 1 else 2) title)
       (enumerate 0 (funnelSteps funnelMode))"

text \<open>\<open>tabulate\<close> of daily-dropoffs-report.tsx, which filters by agency.\<close>

definition tabulate_dropoffs ::
  "DailyDropoffsRow list option \<Rightarrow> FunnelMode \<Rightarrow> string option \<Rightarrow> (string \<Rightarrow> string)
     \<Rightarrow> TableData" where
  "tabulate_dropoffs rs funnelMode filterAgency issuerColor =
     (let filteredRows = filter (\<lambda>d. no_agency_filter filterAgency \<or> Some (agency d) = filterAgency)
                           (case rs of None \<Rightarrow> [] | Some xs \<Rightarrow> xs);
          header = [Text ''Agency'', Text ''App''] @ stepHeaders funnelMode;
          body = map (\<lambda>row. [Text (agency row),
                              ColorSpan (issuer row) (issuerColor (issuer row)) (friendly_name row)]
                             @ stepCells row funnelMode)
                   filteredRows
      in \<lparr> header = header, body = body, footer = None \<rparr>)"

text \<open>
  \<open>tabulate\<close> of the dropoffs table component, which sorts the rows by agency and
  friendly name and adds a footer of totals.
\<close>

definition sortRows :: "DailyDropoffsRow list \<Rightarrow> DailyDropoffsRow list" where
  "sortRows unsortedRows =
     sort_by (\<lambda>a b. js_or (ascending (agency a) (agency b))
                            (ascending (friendly_name a) (friendly_name b)))
       unsortedRows"

definition stepTotals :: "DailyDropoffsRow list \<Rightarrow> FunnelMode \<Rightarrow> int list" where
  "stepTotals rows funnelMode =
     foldl (\<lambda>totals row. map (\<lambda>(total, sc). total + step_count sc)
                             (zip totals (toStepCounts row funnelMode)))
       (map (\<lambda>_. 0) (funnelSteps funnelMode)) rows"

definition tabulate_sorted ::
  "DailyDropoffsRow list \<Rightarrow> FunnelMode \<Rightarrow> (string \<Rightarrow> string) \<Rightarrow> TableData" where
  "tabulate_sorted unsortedRows funnelMode issuerColor =
     (let rows = sortRows unsortedRows;
          header = [Text ''Agency'', CsvSpan [''Issuer'', ''Friendly Name''] ''App'']
                   @ stepHeaders funnelMode;
          totals = stepTotals rows funnelMode;
          body = map (\<lambda>row. [Text (agency row),
                              ColorSpan (issuer row) (issuerColor (issuer row)) (friendly_name row)]
                             @ stepCells row funnelMode)
                   rows
      in \<lparr> header = header, body = body,
           footer = Some ([Text ''Total'', Text '''']
                          @ concat (map (\<lambda>(idx, total).
                                           if idx > 0 then [FootTd (Some total), FootTd None]
                                           else [FootTd (Some total)])
                                      (enumerate 0 totals))) \<rparr>)"

section \<open>Account deletions report\<close>

text \<open>
  Of a daily registrations result the report reads the date and the two user counts;
  \<open>formatData\<close> groups the results by week and divides the sums.
\<close>

record RegistrationResult =
  reg_date :: int
  deletedUsers :: int
  fullyRegisteredUsers :: int

record ProcessedFormattedData =
  week_date :: int
  ratio_value :: jsnum

text \<open>
  \<open>getStartOfWeek\<close> works in local time. \<open>tz\<close> is the time zone of the environment as
  ECMAScript reads it: \<open>tz t True\<close> is the offset in milliseconds of local time from UTC
  at the instant \<open>t\<close>, and \<open>tz t False\<close> the offset at the local time \<open>t\<close>; the two
  differ from one day to another where the clocks change. \<open>getDay\<close> and \<open>getDate\<close>
  read the local time, \<open>setDate\<close> moves the local date back by the day of the week and
  keeps the local time of day, and the new local time is turned into an instant again.
  1970-01-01 was a Thursday, day 4 of the week.
\<close>

definition getStartOfWeek :: "(int \<Rightarrow> bool \<Rightarrow> int) \<Rightarrow> int \<Rightarrow> int" where
  "getStartOfWeek tz t =
     (let localTime = t + tz t True;
          day = (localTime div msPerDay + 4) mod 7;
          startOfWeek = localTime - day * msPerDay
      in startOfWeek - tz startOfWeek False)"

definition formatData ::
  "(int \<Rightarrow> bool \<Rightarrow> int) \<Rightarrow> RegistrationResult list \<Rightarrow> ProcessedFormattedData list" where
  "formatData tz data =
     map (\<lambda>(week, entries).
            (let (deleted, registered) =
                   foldl (\<lambda>(del, reg) entry.
                            (del + deletedUsers entry, reg + fullyRegisteredUsers entry))
                     (0, 0) entries
             in \<lparr> week_date = week, ratio_value = js_div deleted registered \<rparr>))
       (d3_group (\<lambda>v. getStartOfWeek tz (reg_date v)) data)"

section \<open>Loaders\<close>

text \<open>
  A promise is modelled by how it settles: the instant, and the rejection reason or the
  value. \<open>p.then(f)\<close> passes a rejection of \<open>p\<close> on and otherwise settles as \<open>f\<close>'s
  result does. \<open>Promise.all\<close> rejects with the reason of the promise that rejects
  first, and otherwise fulfils with the values in the order of the promises.
\<close>

datatype error = NetworkError string | SyntaxError string | TypeError string

type_synonym 'a promise = "nat \<times> (error + 'a)"

definition then_promise :: "'a promise \<Rightarrow> ('a \<Rightarrow> 'b promise) \<Rightarrow> 'b promise" where
  "then_promise p f = (case snd p of Inl e \<Rightarrow> (fst p, Inl e) | Inr v \<Rightarrow> f v)"

definition then_value :: "'a promise \<Rightarrow> ('a \<Rightarrow> 'b) \<Rightarrow> 'b promise" where
  "then_value p f = (case snd p of Inl e \<Rightarrow> (fst p, Inl e) | Inr v \<Rightarrow> (fst p, Inr (f v)))"

fun first_rejection :: "'a promise list \<Rightarrow> (nat \<times> error) option" where
  "first_rejection [] = None"
| "first_rejection ((t, Inl e) # ps) =
     (case first_rejection ps of
        None \<Rightarrow> Some (t, e)
      | Some (t', e') \<Rightarrow> if t' < t then Some (t', e') else Some (t, e))"
| "first_rejection ((t, Inr v) # ps) = first_rejection ps"

fun fulfilled :: "'a promise list \<Rightarrow> 'a list" where
  "fulfilled [] = []"
| "fulfilled ((t, Inl e) # ps) = fulfilled ps"
| "fulfilled ((t, Inr v) # ps) = v # fulfilled ps"

definition promise_all :: "'a promise list \<Rightarrow> 'a list promise" where
  "promise_all ps =
     (case first_rejection ps of
        Some (t, e) \<Rightarrow> (t, Inl e)
      | None \<Rightarrow> (foldr max (map fst ps) 0, Inr (fulfilled ps)))"

record Response =
  json :: "DailyAuthsReportData promise"
  text_body :: "string promise"

record ReportPathArgs =
  reportName :: string
  path_date :: int
  path_env :: string
  extension :: "string option"

text \<open>
  \<open>loadData\<close> of the daily auths report. \<open>reportPath\<close> (module report) and \<open>fetch\<close>
  are parameters. \<open>requests\<close> is the list of paths that are fetched, one call each,
  and \<open>dayReports\<close> the promises \<open>fetch(path).then((response) => response.json())\<close>
  that \<open>Promise.all\<close> joins.
\<close>

definition requests ::
  "(ReportPathArgs \<Rightarrow> string) \<Rightarrow> int \<Rightarrow> int \<Rightarrow> string \<Rightarrow> string list" where
  "requests reportPath start finish env =
     map (\<lambda>date. reportPath \<lparr> reportName = ''daily-auths-report'', path_date = date,
                               path_env = env, extension = None \<rparr>)
       (utcDays start finish)"

definition dayReports ::
  "(string \<Rightarrow> Response promise) \<Rightarrow> (ReportPathArgs \<Rightarrow> string) \<Rightarrow> int \<Rightarrow> int \<Rightarrow> string
     \<Rightarrow> DailyAuthsReportData promise list" where
  "dayReports fetch reportPath start finish env =
     map (\<lambda>path. then_promise (fetch path) json) (requests reportPath start finish env)"

definition loadData ::
  "(string \<Rightarrow> Response promise) \<Rightarrow> (ReportPathArgs \<Rightarrow> string) \<Rightarrow> int \<Rightarrow> int \<Rightarrow> string
     \<Rightarrow> ProcessedResult list promise" where
  "loadData fetch reportPath start finish env =
     then_value (promise_all (dayReports fetch reportPath start finish env))
       (\<lambda>reports. concat (map process reports))"

text \<open>\<open>loadData\<close> of the daily dropoffs report; \<open>csvParse\<close> is d3-dsv's.\<close>

definition requests_dropoffs ::
  "(ReportPathArgs \<Rightarrow> string) \<Rightarrow> int \<Rightarrow> int \<Rightarrow> string \<Rightarrow> string list" where
  "requests_dropoffs reportPath start finish env =
     map (\<lambda>date. reportPath \<lparr> reportName = ''daily-dropoffs-report'', path_date = date,
                               path_env = env, extension = Some ''csv'' \<rparr>)
       (utcDays start finish)"

definition dayTexts ::
  "(string \<Rightarrow> Response promise) \<Rightarrow> (ReportPathArgs \<Rightarrow> string) \<Rightarrow> int \<Rightarrow> int \<Rightarrow> string
     \<Rightarrow> string promise list" where
  "dayTexts fetch reportPath start finish env =
     map (\<lambda>path. then_promise (fetch path) text_body)
       (requests_dropoffs reportPath start finish env)"

definition loadData_dropoffs ::
  "(string \<Rightarrow> Response promise) \<Rightarrow> (ReportPathArgs \<Rightarrow> string) \<Rightarrow> (string \<Rightarrow> ParsedRow list)
     \<Rightarrow> int \<Rightarrow> int \<Rightarrow> string \<Rightarrow> DailyDropoffsRow list promise" where
  "loadData_dropoffs fetch reportPath csvParse start finish env =
     then_value (promise_all (dayTexts fetch reportPath start finish env))
       (\<lambda>reports. aggregate (concat (map (process_dropoffs csvParse) reports)))"

section \<open>Vocabulary of the properties\<close>

text \<open>A field is missing when it is absent (null) or empty.\<close>

definition missing :: "string option \<Rightarrow> bool" where
  "missing s = (s = None \<or> s = Some '''')"

text \<open>
  The fields of a parsed funnel row that JavaScript takes for false: null and the empty
  string, and the number 0, NaN and the boolean false that \<open>autoType\<close> makes of the
  fields \<open>0\<close>, \<open>NaN\<close> and \<open>false\<close>.
\<close>

definition falsy :: "Field \<Rightarrow> bool" where
  "falsy v = (v = FNull \<or> v = FString '''' \<or> v = FZero \<or> v = FNaN \<or> v = FFalse)"

text \<open>
  The rows of one group (agency, issuer, assurance level), the sum of the counts of the
  rows of a date, and the groups in the order in which the daily auths table lists them.
\<close>

definition groupRows :: "ProcessedResult list \<Rightarrow> string \<Rightarrow> string \<Rightarrow> nat \<Rightarrow> ProcessedResult list" where
  "groupRows rows a i l = filter (\<lambda>r. agency r = a \<and> issuer r = i \<and> ial r = l) rows"

definition daySum :: "ProcessedResult list \<Rightarrow> int \<Rightarrow> int" where
  "daySum rows d = sum_list (map count (filter (\<lambda>r. date r = d) rows))"

definition groupKeys :: "ProcessedResult list \<Rightarrow> (string \<times> string \<times> nat) list" where
  "groupKeys rows =
     concat (map (\<lambda>a. map (Pair a)
               (concat (map (\<lambda>i. map (Pair i)
                          (array_from_set (map ial (filter (\<lambda>r. agency r = a \<and> issuer r = i) rows))))
                        (sort (array_from_set (map issuer (filter (\<lambda>r. agency r = a) rows)))))))
            (sort (array_from_set (map agency rows))))"

text \<open>
  The groups (agency, assurance level) of the table summed by agency, in the order of
  the table, and the sum of the counts of a group on the UTC day of a date.
\<close>

definition agencyKeys :: "ProcessedResult list \<Rightarrow> (string \<times> nat) list" where
  "agencyKeys rows =
     concat (map (\<lambda>a. map (Pair a)
                        (array_from_set (map ial (filter (\<lambda>r. agency r = a) rows))))
            (sort (array_from_set (map agency rows))))"

definition agencyDaySum :: "ProcessedResult list \<Rightarrow> string \<Rightarrow> nat \<Rightarrow> int \<Rightarrow> int" where
  "agencyDaySum rows a l d =
     sum_list (map count
       (filter (\<lambda>r. agency r = a \<and> ial r = l
                   \<and> yearMonthDayFormat (date r) = yearMonthDayFormat d) rows))"

text \<open>The funnel rows of one issuer, and the sum of a step's counts over rows.\<close>

definition rowsOfIssuer :: "DailyDropoffsRow list \<Rightarrow> string \<Rightarrow> DailyDropoffsRow list" where
  "rowsOfIssuer rows i = filter (\<lambda>r. issuer r = i) rows"

definition stepSum :: "DailyDropoffsRow list \<Rightarrow> Step \<Rightarrow> int" where
  "stepSum rows k = sum_list (map (\<lambda>r. count_or_zero (steps r k)) rows)"

text \<open>
  What a cell shows as its key: the title of the App element of the daily auths table
  (the issuer), the friendly name of the App element of the funnel table, the text of a
  plain cell or of a link.
\<close>

fun cell_text :: "Cell \<Rightarrow> string" where
  "cell_text (Text s) = s"
| "cell_text (Span title child) = title"
| "cell_text (ColorSpan title color child) = child"
| "cell_text (Link href child) = child"
| "cell_text c = ''''"

section \<open>Example inputs\<close>

text \<open>
  The four rows of the \<open>#tabulate\<close> test of the daily auths report, and the three of
  them that belong to \<open>agency1\<close>; 1609459200000 is 2021-01-01T00:00Z. \<open>agency2\<close> has
  a row on the first day only.
\<close>

definition test_results :: "ProcessedResult list" where
  "test_results =
     [\<lparr> issuer = ''issuer1'', friendly_name = ''app1'', iaa = None, agency = ''agency1'',
        count = 100, ial = 1, date = 1609459200000 \<rparr>,
      \<lparr> issuer = ''issuer1'', friendly_name = ''app1'', iaa = None, agency = ''agency1'',
        count = 1, ial = 2, date = 1609459200000 \<rparr>,
      \<lparr> issuer = ''issuer2'', friendly_name = ''app2'', iaa = None, agency = ''agency2'',
        count = 1000, ial = 1, date = 1609459200000 \<rparr>,
      \<lparr> issuer = ''issuer1'', friendly_name = ''app1'', iaa = Some ''iaa1'',
        agency = ''agency1'', count = 111, ial = 1, date = 1609545600000 \<rparr>]"

definition example_results :: "ProcessedResult list" where
  "example_results =
     [\<lparr> issuer = ''issuer1'', friendly_name = ''app1'', iaa = None, agency = ''agency1'',
        count = 100, ial = 1, date = 1609459200000 \<rparr>,
      \<lparr> issuer = ''issuer1'', friendly_name = ''app1'', iaa = None, agency = ''agency1'',
        count = 1, ial = 2, date = 1609459200000 \<rparr>,
      \<lparr> issuer = ''issuer1'', friendly_name = ''app1'', iaa = Some ''iaa1'',
        agency = ''agency1'', count = 111, ial = 1, date = 1609545600000 \<rparr>]"

text \<open>Two rows of one group on one day.\<close>

definition duplicate_results :: "ProcessedResult list" where
  "duplicate_results =
     [\<lparr> issuer = ''issuer1'', friendly_name = ''app1'', iaa = None, agency = ''agency1'',
        count = 1, ial = 1, date = 1609459200000 \<rparr>,
      \<lparr> issuer = ''issuer1'', friendly_name = ''app1'', iaa = None, agency = ''agency1'',
        count = 2, ial = 1, date = 1609459200000 \<rparr>]"

text \<open>
  Funnel rows: one whose steps all count 0, and one with 100 users at the welcome step
  and 50 at the agreement step.
\<close>

definition zero_row :: DailyDropoffsRow where
  "zero_row =
     \<lparr> issuer = ''issuer1'', friendly_name = ''app1'', iaa = None, agency = ''agency1'',
       row_start = 1609459200000, row_finish = 1609545600000,
       steps = (\<lambda>k. Some 0) \<rparr>"

definition half_row :: DailyDropoffsRow where
  "half_row =
     \<lparr> issuer = ''issuer1'', friendly_name = ''app1'', iaa = None, agency = ''agency1'',
       row_start = 1609459200000, row_finish = 1609545600000,
       steps = (\<lambda>k. if k = WELCOME then Some 100 else if k = AGREEMENT then Some 50 else None) \<rparr>"

text \<open>Two issuers whose agencies are in the opposite order.\<close>

definition unsorted_agency_rows :: "DailyDropoffsRow list" where
  "unsorted_agency_rows =
     [\<lparr> issuer = ''a'', friendly_name = ''app a'', iaa = None, agency = ''z'',
        row_start = 1609459200000, row_finish = 1609545600000, steps = (\<lambda>k. Some 1) \<rparr>,
      \<lparr> issuer = ''b'', friendly_name = ''app b'', iaa = None, agency = ''y'',
        row_start = 1609459200000, row_finish = 1609545600000, steps = (\<lambda>k. Some 2) \<rparr>]"

text \<open>An issuer whose rows name two agencies.\<close>

definition moved_issuer_rows :: "DailyDropoffsRow list" where
  "moved_issuer_rows =
     [\<lparr> issuer = ''issuer1'', friendly_name = ''app1'', iaa = None, agency = ''agency1'',
        row_start = 1609459200000, row_finish = 1609545600000, steps = (\<lambda>k. Some 1) \<rparr>,
      \<lparr> issuer = ''issuer1'', friendly_name = ''app1'', iaa = None, agency = ''agency2'',
        row_start = 1609545600000, row_finish = 1609632000000, steps = (\<lambda>k. Some 2) \<rparr>]"

text \<open>The color scale of an example table gives every issuer the same color.\<close>

definition example_color :: "string \<Rightarrow> string" where
  "example_color i = ''#1f77b4''"

text \<open>
  A parsed CSV row without issuer and with an empty friendly name, and a daily auths
  report whose only result has an empty issuer, an empty friendly name and no agency.
\<close>

definition example_parsed_row :: ParsedRow where
  "example_parsed_row =
     \<lparr> p_issuer = FNull, p_friendly_name = FString '''', p_iaa = None,
       p_agency = FString ''agency1'',
       p_start = 1609459200000, p_finish = 1609545600000, p_steps = (\<lambda>k. Some 1) \<rparr>"

text \<open>
  The parsed row of a line whose issuer is \<open>0\<close>, whose friendly name is \<open>false\<close> and
  whose agency is \<open>NaN\<close>.
\<close>

definition falsy_parsed_row :: ParsedRow where
  "falsy_parsed_row =
     \<lparr> p_issuer = FZero, p_friendly_name = FFalse, p_iaa = Some ''iaa1'', p_agency = FNaN,
       p_start = 1609459200000, p_finish = 1609545600000, p_steps = (\<lambda>k. Some 2) \<rparr>"

definition example_report :: DailyAuthsReportData where
  "example_report =
     \<lparr> results = [\<lparr> r_count = 5, r_ial = 1, r_issuer = '''', r_iaa = None,
                    r_friendly_name = '''', r_agency = None \<rparr>],
       report_start = 1609459200000, report_finish = 1609545600000 \<rparr>"

text \<open>
  An example \<open>reportPath\<close>, after the URL pattern of the report files:
  \<^verbatim>\<open><report-name>/<YYYY-MM-DD>.<json|csv>?env=<env>\<close>.
\<close>

definition example_reportPath :: "ReportPathArgs \<Rightarrow> string" where
  "example_reportPath args =
     reportName args @ ''/'' @ yearMonthDayFormat (path_date args) @ ''.''
     @ (case extension args of None \<Rightarrow> ''json'' | Some e \<Rightarrow> e)
     @ ''?env='' @ path_env args"

text \<open>
  An example network in which the files of 2021-01-01 are served and every other request
  fails, and one that serves every request.
\<close>

definition example_fetch :: "string \<Rightarrow> Response promise" where
  "example_fetch path =
     (if path = ''daily-auths-report/2021-01-01.json?env=prod''
         \<or> path = ''daily-dropoffs-report/2021-01-01.csv?env=prod''
      then (20, Inr \<lparr> json = (25, Inr example_report), text_body = (25, Inr ''csv'') \<rparr>)
      else (10, Inl (NetworkError path)))"

definition example_fetch_ok :: "string \<Rightarrow> Response promise" where
  "example_fetch_ok path =
     (20, Inr \<lparr> json = (25, Inr example_report), text_body = (25, Inr ''csv'') \<rparr>)"

section \<open>Properties\<close>

subsection \<open>Evaluation on concrete inputs\<close>

lemma format_2021_01_01: "yearMonthDayFormat 1609459200000 = ''2021-01-01''"
  by code_simp

lemma format_2021_01_02: "yearMonthDayFormat 1609545600000 = ''2021-01-02''"
  by code_simp

lemma string_of_nat_1: "string_of_nat (Suc 0) = ''1''"
  by code_simp

lemma string_of_nat_2: "string_of_nat 2 = ''2''"
  by code_simp

lemmas tabulate_eval =
  tabulate_def grouped_def tabulateRow_def filterResults_def no_agency_filter_def no_ial_filter_def daysOf_def
  array_from_set_def sort_by_def d3_group_def friendlyNames_def dayCount_def ascending_def
  Let_def

lemma tabulate_example_results:
  "tabulate (Some example_results) None None =
     \<lparr> header = [Text ''Agency'', Text ''App'', Text ''IAL'', Text ''2021-01-01'',
                 Text ''2021-01-02'', Text ''Total''],
       body = [[Text ''agency1'', Span ''issuer1'' (Some ''app1''), Text ''1'',
                Num 100, Num 111, Num 211],
               [Text ''agency1'', Span ''issuer1'' (Some ''app1''), Text ''2'',
                Num 1, Num 0, Num 1]],
       footer = None \<rparr>"
  by (simp add: tabulate_eval example_results_def format_2021_01_01 format_2021_01_02
      string_of_nat_1 string_of_nat_2)

subsection \<open>The worked example of the daily auths table\<close>

text \<open>
  C8 (as the code has it): the three example rows tabulate to the header
  Agency, App, IAL, 2021-01-01, 2021-01-02, Total and to two body rows that end in
  their totals, 211 and 1; the day without a row for IAL 2 shows 0.
\<close>

theorem example_table:
  "tabulate (Some example_results) None None =
     \<lparr> header = [Text ''Agency'', Text ''App'', Text ''IAL'', Text ''2021-01-01'',
                 Text ''2021-01-02'', Text ''Total''],
       body = [[Text ''agency1'', Span ''issuer1'' (Some ''app1''), Text ''1'',
                Num 100, Num 111, Num 211],
               [Text ''agency1'', Span ''issuer1'' (Some ''app1''), Text ''2'',
                Num 1, Num 0, Num 1]],
       footer = None \<rparr>"
  by (rule tabulate_example_results)

text \<open>
  C8 as stated, with a header and rows that have no Total column, does not hold.
\<close>

theorem example_table_without_total_counterexample:
  "\<not> (header (tabulate (Some example_results) None None) =
        [Text ''Agency'', Text ''App'', Text ''IAL'', Text ''2021-01-01'', Text ''2021-01-02'']
      \<and> simplifyVNodes (body (tabulate (Some example_results) None None)) =
        [[Text ''agency1'', Text ''issuer1'', Text ''1'', Num 100, Num 111],
         [Text ''agency1'', Text ''issuer1'', Text ''2'', Num 1, Num 0]])"
  by (simp add: tabulate_eval example_results_def format_2021_01_01 format_2021_01_02
      string_of_nat_1 string_of_nat_2)

subsection \<open>Sorting with a comparator\<close>

lemma ascending_le_0 [simp]: "ascending a b \<le> 0 \<longleftrightarrow> a \<le> b"
  by (auto simp: ascending_def)

lemma ascending_eq_0 [simp]: "ascending a b = 0 \<longleftrightarrow> a = b"
  by (auto simp: ascending_def)

lemma js_or_ascending: "js_or (ascending a b) (ascending c d) = ascending (a, c) (b, d)"
  by (auto simp: js_or_def ascending_def)

lemma insert_by_key: "insert_by (\<lambda>a b. ascending (f a) (f b)) x xs = insort_key f x xs"
  by (induction xs) auto

lemma sort_by_key: "sort_by (\<lambda>a b. ascending (f a) (f b)) xs = sort_key f xs"
proof -
  have "insert_by (\<lambda>a b. ascending (f a) (f b)) = insort_key f"
    by (intro ext) (rule insert_by_key)
  then show ?thesis
    by (simp add: sort_by_def sort_key_def)
qed

lemma sort_by_fst: "sort_by (\<lambda>(a, _) (b, _). ascending a b) xs = sort_key fst xs"
proof -
  have "sort_by (\<lambda>(a, _) (b, _). ascending a b) xs
      = sort_by (\<lambda>p q. ascending (fst p) (fst q)) xs"
    by (rule arg_cong [where f = "\<lambda>c. sort_by c xs"]) (auto simp: fun_eq_iff)
  then show ?thesis
    by (simp only: sort_by_key)
qed

lemma insert_by_minus: "insert_by (\<lambda>a b. a - b) x xs = insort x xs" for x :: int
  by (induction xs) auto

lemma sort_by_minus: "sort_by (\<lambda>a b. a - b) xs = sort xs" for xs :: "int list"
proof -
  have "insert_by (\<lambda>a b :: int. a - b) = insort"
    by (intro ext) (rule insert_by_minus)
  then show ?thesis
    by (simp add: sort_by_def sort_key_def)
qed

lemma insort_key_map: "insort_key f (h x) (map h ys) = map h (insort_key (\<lambda>y. f (h y)) x ys)"
  by (induction ys) auto

lemma sort_key_map: "sort_key f (map h xs) = map h (sort_key (\<lambda>y. f (h y)) xs)"
  by (induction xs) (auto simp: insort_key_map)

lemma insort_key_pair: "insort_key (\<lambda>k. (k, g k)) x ys = insort x ys"
  by (induction ys) auto

lemma sort_key_pair: "sort_key (\<lambda>k. (k, g k)) xs = sort xs"
  by (induction xs) (auto simp: insort_key_pair)

subsection \<open>Sets as arrays and groups\<close>

lemma set_add_eq: "set_add x ys = (if x \<in> set ys then ys else ys @ [x])"
  by (induction ys) auto

lemma array_from_set_snoc: "array_from_set (xs @ [x]) = set_add x (array_from_set xs)"
  by (simp add: array_from_set_def)

lemma array_from_set_Nil [simp]: "array_from_set [] = []"
  by (simp add: array_from_set_def)

lemma set_array_from_set [simp]: "set (array_from_set xs) = set xs"
  by (induction xs rule: rev_induct) (auto simp: array_from_set_snoc set_add_eq)

lemma distinct_array_from_set [simp]: "distinct (array_from_set xs)"
  by (induction xs rule: rev_induct) (auto simp: array_from_set_snoc set_add_eq)

lemma array_from_set_filter: "array_from_set (filter Q xs) = filter Q (array_from_set xs)"
  by (induction xs rule: rev_induct) (auto simp: array_from_set_snoc set_add_eq)

lemma array_from_set_distinct: "distinct xs \<Longrightarrow> array_from_set xs = xs"
  by (induction xs rule: rev_induct) (auto simp: array_from_set_snoc set_add_eq)

lemma d3_group_Nil [simp]: "d3_group f [] = []"
  by (simp add: d3_group_def)

lemma d3_group_snoc: "d3_group f (xs @ [x]) = group_ins (f x) x (d3_group f xs)"
  by (simp add: d3_group_def)

lemma group_ins_new: "k \<notin> set ks \<Longrightarrow>
  group_ins k v (map (\<lambda>k. (k, b k)) ks) = map (\<lambda>k. (k, b k)) ks @ [(k, [v])]"
  by (induction ks) auto

lemma group_ins_old: "k \<in> set ks \<Longrightarrow> distinct ks \<Longrightarrow>
  group_ins k v (map (\<lambda>k. (k, b k)) ks) = map (\<lambda>k'. (k', if k' = k then b k' @ [v] else b k')) ks"
  by (induction ks) auto

theorem d3_group_eq:
  "d3_group f xs = map (\<lambda>k. (k, filter (\<lambda>x. f x = k) xs)) (array_from_set (map f xs))"
proof (induction xs rule: rev_induct)
  case Nil
  show ?case by simp
next
  case (snoc x xs)
  let ?ks = "array_from_set (map f xs)"
  show ?case
  proof (cases "f x \<in> set ?ks")
    case True
    then have "array_from_set (map f (xs @ [x])) = ?ks"
      by (simp add: array_from_set_snoc set_add_eq)
    moreover have "group_ins (f x) x (map (\<lambda>k. (k, filter (\<lambda>y. f y = k) xs)) ?ks)
        = map (\<lambda>k. (k, filter (\<lambda>y. f y = k) (xs @ [x]))) ?ks"
      using True by (subst group_ins_old) auto
    ultimately show ?thesis
      by (simp add: d3_group_snoc snoc.IH)
  next
    case False
    then have "f x \<notin> f ` set xs"
      by simp
    then have nf: "f y \<noteq> f x" if "y \<in> set xs" for y
      using that by (metis imageI)
    from False have "array_from_set (map f (xs @ [x])) = ?ks @ [f x]"
      by (simp add: array_from_set_snoc set_add_eq)
    moreover have "group_ins (f x) x (map (\<lambda>k. (k, filter (\<lambda>y. f y = k) xs)) ?ks)
        = map (\<lambda>k. (k, filter (\<lambda>y. f y = k) xs)) ?ks @ [(f x, [x])]"
      using False by (rule group_ins_new)
    moreover have "filter (\<lambda>y. f y = f x) xs = []"
      using nf by (simp add: filter_empty_conv)
    moreover have "map (\<lambda>k. (k, filter (\<lambda>y. f y = k) (xs @ [x]))) ?ks
        = map (\<lambda>k. (k, filter (\<lambda>y. f y = k) xs)) ?ks"
      using False by auto
    ultimately show ?thesis
      by (simp add: d3_group_snoc snoc.IH)
  qed
qed

subsection \<open>Ratios\<close>

lemma length_funnelSteps: "length (funnelSteps funnelMode) = (if funnelMode = OVERALL then 11 else 8)"
  by (simp add: funnelSteps_def STEPS_def)

lemma length_toStepCounts [simp]:
  "length (toStepCounts row funnelMode) = length (funnelSteps funnelMode)"
  by (simp add: toStepCounts_def Let_def)

lemma toStepCounts_nth:
  assumes "idx < length (funnelSteps funnelMode)"
  shows "toStepCounts row funnelMode ! idx =
           \<lparr> step = fst (funnelSteps funnelMode ! idx),
             step_count = count_or_zero (steps row (fst (funnelSteps funnelMode ! idx))),
             percentOfFirst =
               or_zero (js_div (count_or_zero (steps row (fst (funnelSteps funnelMode ! idx))))
                               (count_or_zero (steps row (fst (funnelSteps funnelMode ! 0))))),
             percentOfPrevious =
               or_zero (js_div (count_or_zero (steps row (fst (funnelSteps funnelMode ! idx))))
                               (if idx > 0
                                then count_or_zero (steps row (fst (funnelSteps funnelMode ! (idx - 1))))
                                else count_or_zero (steps row (fst (funnelSteps funnelMode ! 0))))) \<rparr>"
  using assms by (simp add: toStepCounts_def Let_def nth_enumerate_eq case_prod_beta)

lemma or_zero_js_div:
  "or_zero (js_div a b) =
     (if b = 0 then (if a = 0 then Finite 0 else if 0 < a then PosInfinity else NegInfinity)
      else Finite (of_int a / of_int b))"
  by (auto simp: or_zero_def js_div_def)

lemma foldl_sums:
  "foldl (\<lambda>(del, reg) entry. (del + deletedUsers entry, reg + fullyRegisteredUsers entry))
     (d, r) entries
   = (d + sum_list (map deletedUsers entries), r + sum_list (map fullyRegisteredUsers entries))"
  by (induction entries arbitrary: d r) auto

text \<open>
  C2 (as the code guards it): for every step of a funnel row, when the baseline (the
  first step's count, or the previous step's count) is zero and the step's own count is
  zero as well, \<open>percentOfFirst\<close> and \<open>percentOfPrevious\<close> are 0; when the baseline
  is not zero they are the quotient. The account-deletion ratio has no guard: it is the
  JavaScript quotient of the week's deleted users by its fully registered users.
\<close>
theorem ratios_at_zero_baseline:
  assumes "idx < length (funnelSteps funnelMode)"
    and "sc = toStepCounts row funnelMode ! idx"
    and "firstCount = count_or_zero (steps row (fst (funnelSteps funnelMode ! 0)))"
    and "prevCount = (if idx > 0
                      then count_or_zero (steps row (fst (funnelSteps funnelMode ! (idx - 1))))
                      else firstCount)"
  shows "(firstCount = 0 \<and> step_count sc = 0 \<longrightarrow> percentOfFirst sc = Finite 0)
       \<and> (firstCount \<noteq> 0 \<longrightarrow>
            percentOfFirst sc = Finite (of_int (step_count sc) / of_int firstCount))
       \<and> (prevCount = 0 \<and> step_count sc = 0 \<longrightarrow> percentOfPrevious sc = Finite 0)
       \<and> (prevCount \<noteq> 0 \<longrightarrow>
            percentOfPrevious sc = Finite (of_int (step_count sc) / of_int prevCount))
       \<and> formatData tz data =
            map (\<lambda>(week, entries).
                   \<lparr> week_date = week,
                     ratio_value = js_div (sum_list (map deletedUsers entries))
                                          (sum_list (map fullyRegisteredUsers entries)) \<rparr>)
              (d3_group (\<lambda>v. getStartOfWeek tz (reg_date v)) data)"
proof -
  have sc: "step_count sc = count_or_zero (steps row (fst (funnelSteps funnelMode ! idx)))"
    and pf: "percentOfFirst sc = or_zero (js_div (step_count sc) firstCount)"
    and pp: "percentOfPrevious sc = or_zero (js_div (step_count sc) prevCount)"
    using assms by (simp_all add: toStepCounts_nth)
  have fd: "formatData tz data =
            map (\<lambda>(week, entries).
                   \<lparr> week_date = week,
                     ratio_value = js_div (sum_list (map deletedUsers entries))
                                          (sum_list (map fullyRegisteredUsers entries)) \<rparr>)
              (d3_group (\<lambda>v. getStartOfWeek tz (reg_date v)) data)"
    by (simp add: formatData_def foldl_sums)
  show ?thesis
    using fd by (simp add: pf pp or_zero_js_div)
qed

theorem ratios_at_zero_baseline_witness:
  "percentOfFirst (toStepCounts zero_row OVERALL ! Suc 0) = Finite 0
   \<and> percentOfPrevious (toStepCounts zero_row OVERALL ! Suc 0) = Finite 0
   \<and> percentOfFirst (toStepCounts half_row OVERALL ! Suc 0) = Finite (1 / 2)"
proof -
  have l: "Suc 0 < length (funnelSteps OVERALL)"
    by (simp add: length_funnelSteps)
  have z: "count_or_zero (steps zero_row k) = 0" for k
    by (simp add: zero_row_def count_or_zero_def)
  have s: "fst (funnelSteps OVERALL ! Suc 0) = AGREEMENT" "fst (funnelSteps OVERALL ! 0) = WELCOME"
    by (simp_all add: funnelSteps_def STEPS_def)
  have h: "count_or_zero (steps half_row WELCOME) = 100"
    "count_or_zero (steps half_row AGREEMENT) = 50"
    by (simp_all add: half_row_def count_or_zero_def)
  have c: "step_count (toStepCounts zero_row OVERALL ! Suc 0) = 0"
    "step_count (toStepCounts half_row OVERALL ! Suc 0) = 50"
    by (simp_all add: toStepCounts_nth [OF l] s z h)
  from ratios_at_zero_baseline [OF l refl refl refl, of zero_row]
       ratios_at_zero_baseline [OF l refl refl refl, of half_row]
  show ?thesis
    by (simp add: z s h c)
qed

text \<open>
  C2 as stated fails for the account-deletion ratio: a week without deleted and without
  registered users has the ratio NaN, not 0.
\<close>
theorem deletion_ratio_counterexample:
  "map ratio_value
     (formatData (\<lambda>t utc. 0)
        [\<lparr> reg_date = 1609459200000, deletedUsers = 0, fullyRegisteredUsers = 0 \<rparr>])
   \<noteq> [Finite 0]"
  by (simp add: formatData_def d3_group_def js_div_def)

text \<open>
  The guard \<open>|| 0\<close> of \<open>toStepCounts\<close> catches NaN and lets Infinity through: a
  positive count over a zero baseline.
\<close>

lemma percentOfFirst_infinity:
  "percentOfFirst (toStepCounts
     (zero_row \<lparr> steps := (\<lambda>k. if k = AGREEMENT then Some 5 else Some 0) \<rparr>) OVERALL ! Suc 0)
   = PosInfinity"
proof -
  have l: "Suc 0 < length (funnelSteps OVERALL)"
    by (simp add: length_funnelSteps)
  have s: "fst (funnelSteps OVERALL ! Suc 0) = AGREEMENT" "fst (funnelSteps OVERALL ! 0) = WELCOME"
    by (simp_all add: funnelSteps_def STEPS_def)
  show ?thesis
    by (simp add: toStepCounts_nth [OF l] s zero_row_def count_or_zero_def or_zero_js_div)
qed

subsection \<open>Normalization\<close>

lemma str_or_missing: "str_or s dflt = (if missing s then dflt else the s)"
  by (auto simp: str_or_def missing_def split: option.splits)

lemma field_or_falsy: "FString (field_or v dflt) = (if falsy v then FString dflt else v)"
  by (cases v) (simp_all add: falsy_def)

text \<open>
  C7 (as the code has it): the dropoffs normalizer replaces an issuer, an agency and a
  friendly name that JavaScript takes for false by "(No Issuer)", "(No Agency)" and
  "(No App)": a field that is null or empty, and also a field that \<open>autoType\<close> parsed to
  the number 0, to NaN or to the boolean false. It keeps every other value of the three
  fields and every other field, and returns one row per parsed row. The daily auths
  normalizer replaces a missing agency by "(No Agency)", keeps issuer and friendly name
  as they are, and tags the row with the report's start date.
\<close>
theorem normalization_defaults:
  assumes "i < length (csvParse str)"
    and "r = csvParse str ! i"
    and "row = process_dropoffs csvParse str ! i"
    and "j < length (results report)"
    and "x = results report ! j"
    and "d = process report ! j"
  shows "length (process_dropoffs csvParse str) = length (csvParse str)
       \<and> FString (issuer row)
           = (if falsy (p_issuer r) then FString ''(No Issuer)'' else p_issuer r)
       \<and> FString (agency row)
           = (if falsy (p_agency r) then FString ''(No Agency)'' else p_agency r)
       \<and> FString (friendly_name row)
           = (if falsy (p_friendly_name r) then FString ''(No App)'' else p_friendly_name r)
       \<and> iaa row = p_iaa r \<and> row_start row = p_start r \<and> row_finish row = p_finish r
       \<and> steps row = p_steps r
       \<and> length (process report) = length (results report)
       \<and> agency d = (if missing (r_agency x) then ''(No Agency)'' else the (r_agency x))
       \<and> issuer d = r_issuer x \<and> friendly_name d = r_friendly_name x \<and> iaa d = r_iaa x
       \<and> count d = r_count x \<and> ial d = r_ial x \<and> date d = report_start report"
  using assms
  by (simp add: process_dropoffs_def process_def str_or_missing field_or_falsy Let_def)

theorem normalization_defaults_witness:
  "issuer (process_dropoffs (\<lambda>s. [example_parsed_row, falsy_parsed_row]) ''csv'' ! 0)
     = ''(No Issuer)''
   \<and> agency (process_dropoffs (\<lambda>s. [example_parsed_row, falsy_parsed_row]) ''csv'' ! 0)
     = ''agency1''
   \<and> friendly_name (process_dropoffs (\<lambda>s. [example_parsed_row, falsy_parsed_row]) ''csv'' ! 0)
     = ''(No App)''
   \<and> issuer (process_dropoffs (\<lambda>s. [example_parsed_row, falsy_parsed_row]) ''csv'' ! Suc 0)
     = ''(No Issuer)''
   \<and> agency (process_dropoffs (\<lambda>s. [example_parsed_row, falsy_parsed_row]) ''csv'' ! Suc 0)
     = ''(No Agency)''
   \<and> friendly_name
       (process_dropoffs (\<lambda>s. [example_parsed_row, falsy_parsed_row]) ''csv'' ! Suc 0)
     = ''(No App)''
   \<and> iaa (process_dropoffs (\<lambda>s. [example_parsed_row, falsy_parsed_row]) ''csv'' ! Suc 0)
     = Some ''iaa1''
   \<and> agency (process example_report ! 0) = ''(No Agency)''
   \<and> issuer (process example_report ! 0) = ''''"
  using normalization_defaults [of 0 "\<lambda>s. [example_parsed_row, falsy_parsed_row]" "''csv''"
      example_parsed_row
      "process_dropoffs (\<lambda>s. [example_parsed_row, falsy_parsed_row]) ''csv'' ! 0" 0
      example_report "results example_report ! 0" "process example_report ! 0"]
    normalization_defaults [of "Suc 0" "\<lambda>s. [example_parsed_row, falsy_parsed_row]" "''csv''"
      falsy_parsed_row
      "process_dropoffs (\<lambda>s. [example_parsed_row, falsy_parsed_row]) ''csv'' ! Suc 0" 0
      example_report "results example_report ! 0" "process example_report ! 0"]
  by (simp add: example_parsed_row_def falsy_parsed_row_def example_report_def missing_def
        falsy_def)

text \<open>
  C7 as stated fails in both normalizers. In the daily auths normalizer an empty issuer
  and an empty friendly name stay empty. In the dropoffs normalizer a field that is
  present in the file is replaced when it reads \<open>0\<close>, \<open>false\<close> or \<open>NaN\<close>.
\<close>
theorem auths_issuer_default_counterexample:
  "map issuer (process example_report) \<noteq> [''(No Issuer)'']
   \<and> map friendly_name (process example_report) \<noteq> [''(No App)'']
   \<and> map (\<lambda>r. (issuer r, friendly_name r, agency r))
       (process_dropoffs (\<lambda>s. [falsy_parsed_row]) ''csv'')
     = [(''(No Issuer)'', ''(No App)'', ''(No Agency)'')]"
  by (simp add: process_def example_report_def process_dropoffs_def falsy_parsed_row_def)

subsection \<open>Row lengths\<close>

lemma length_step_cells_from:
  "length (concat (map (\<lambda>(idx, sc). c sc # (if idx > 0 then [p sc] else [])) (enumerate k xs)))
   = (if k = 0 \<and> xs \<noteq> [] then 2 * length xs - 1 else 2 * length xs)"
  by (induction xs arbitrary: k) auto

lemma columns_step_headers_from:
  "sum_list (map colSpan (map (\<lambda>(idx, (key, title)). Th (if idx = 0 then 1 else 2) title)
                            (enumerate k xs)))
   = (if k = 0 \<and> xs \<noteq> [] then 2 * length xs - 1 else 2 * length xs)"
  by (induction xs arbitrary: k) (auto simp: case_prod_beta)

lemma colSpan_step_cells_from:
  "sum_list (map colSpan
     (concat (map (\<lambda>(idx, sc). CountTd (c sc) (q sc) # (if idx > 0 then [PercentTd (p sc)] else []))
                (enumerate k xs))))
   = (if k = 0 \<and> xs \<noteq> [] then 2 * length xs - 1 else 2 * length xs)"
  by (induction xs arbitrary: k) auto

lemma funnelSteps_nonempty: "funnelSteps funnelMode \<noteq> []"
  by (simp add: funnelSteps_def STEPS_def)

lemma toStepCounts_nonempty: "toStepCounts row funnelMode \<noteq> []"
  using length_toStepCounts [of row funnelMode] funnelSteps_nonempty [of funnelMode]
  by (metis length_0_conv)

lemma length_stepCells: "length (stepCells row funnelMode) = 2 * length (funnelSteps funnelMode) - 1"
  by (simp add: stepCells_def length_step_cells_from toStepCounts_nonempty)

lemma columns_stepCells: "columns (stepCells row funnelMode) = 2 * length (funnelSteps funnelMode) - 1"
  by (simp add: stepCells_def columns_def colSpan_step_cells_from toStepCounts_nonempty)

lemma length_stepHeaders: "length (stepHeaders funnelMode) = length (funnelSteps funnelMode)"
  by (simp add: stepHeaders_def)

lemma columns_stepHeaders: "columns (stepHeaders funnelMode) = 2 * length (funnelSteps funnelMode) - 1"
  unfolding stepHeaders_def columns_def columns_step_headers_from
  by (simp add: funnelSteps_nonempty)

lemma tabulate_row_length:
  "row \<in> set (body (tabulate rs fa fi)) \<Longrightarrow> length row = length (header (tabulate rs fa fi))"
  by (auto simp: tabulate_def tabulateRow_def Let_def)

lemma tabulateSumByAgency_row_length:
  "row \<in> set (body (tabulateSumByAgency u rs fi)) \<Longrightarrow>
   length row = length (header (tabulateSumByAgency u rs fi))"
  by (auto simp: tabulateSumByAgency_def sumRow_def Let_def)

lemma tabulate_dropoffs_row:
  "row \<in> set (body (tabulate_dropoffs drs funnelMode fa color)) \<Longrightarrow>
   columns row = columns (header (tabulate_dropoffs drs funnelMode fa color))
   \<and> length row = 2 * length (funnelSteps funnelMode) + 1"
  using funnelSteps_nonempty [of funnelMode]
  by (cases "funnelSteps funnelMode")
     (auto simp: tabulate_dropoffs_def Let_def columns_def length_stepCells
        columns_stepCells [unfolded columns_def] columns_stepHeaders [unfolded columns_def])

lemma tabulate_sorted_row:
  "row \<in> set (body (tabulate_sorted rows funnelMode color)) \<Longrightarrow>
   columns row = columns (header (tabulate_sorted rows funnelMode color))
   \<and> length row = 2 * length (funnelSteps funnelMode) + 1"
  using funnelSteps_nonempty [of funnelMode]
  by (cases "funnelSteps funnelMode")
     (auto simp: tabulate_sorted_def Let_def columns_def length_stepCells
        columns_stepCells [unfolded columns_def] columns_stepHeaders [unfolded columns_def])

text \<open>
  C3 (as the code has it): in the daily auths tables every body row has as many cells
  as the header. In the funnel tables every body row spans as many columns as the
  header, whose step cells after the first have \<open>colSpan\<close> 2: a row has
  \<open>2 * n + 1\<close> cells and the header \<open>n + 2\<close>, for \<open>n\<close> funnel steps.
\<close>
theorem row_widths:
  "(\<forall>row \<in> set (body (tabulate rs fa fi)). length row = length (header (tabulate rs fa fi)))
   \<and> (\<forall>row \<in> set (body (tabulateSumByAgency u rs fi)).
         length row = length (header (tabulateSumByAgency u rs fi)))
   \<and> (\<forall>row \<in> set (body (tabulate_dropoffs drs funnelMode fa color)).
         columns row = columns (header (tabulate_dropoffs drs funnelMode fa color))
         \<and> length row = 2 * length (funnelSteps funnelMode) + 1)
   \<and> length (header (tabulate_dropoffs drs funnelMode fa color))
       = length (funnelSteps funnelMode) + 2
   \<and> (\<forall>row \<in> set (body (tabulate_sorted rows funnelMode color)).
         columns row = columns (header (tabulate_sorted rows funnelMode color))
         \<and> length row = 2 * length (funnelSteps funnelMode) + 1)
   \<and> length (header (tabulate_sorted rows funnelMode color))
       = length (funnelSteps funnelMode) + 2"
proof -
  have "length (header (tabulate_dropoffs drs funnelMode fa color))
       = length (funnelSteps funnelMode) + 2"
    by (simp add: tabulate_dropoffs_def Let_def length_stepHeaders)
  moreover have "length (header (tabulate_sorted rows funnelMode color))
       = length (funnelSteps funnelMode) + 2"
    by (simp add: tabulate_sorted_def Let_def length_stepHeaders)
  ultimately show ?thesis
    using tabulate_row_length tabulateSumByAgency_row_length tabulate_dropoffs_row
      tabulate_sorted_row
    by blast
qed

text \<open>
  C3 as stated fails for the funnel table: with the eleven steps of the overall funnel a
  body row has 23 cells and the header 13.
\<close>
theorem funnel_row_cells_counterexample:
  "map length (body (tabulate_sorted [zero_row] OVERALL example_color)) = [23]
   \<and> length (header (tabulate_sorted [zero_row] OVERALL example_color)) = 13"
  by (simp add: tabulate_sorted_def Let_def sortRows_def sort_by_def length_stepCells
      length_stepHeaders length_funnelSteps)

theorem row_widths_witness:
  "map length (body (tabulate (Some example_results) None None)) = [6, 6]
   \<and> map columns (body (tabulate_sorted [zero_row] OVERALL example_color)) = [23]"
proof -
  note w = row_widths [where rs = "Some example_results" and fa = None and fi = None
      and rows = "[zero_row]" and funnelMode = OVERALL and color = example_color
      and u = id and drs = "Some [zero_row]"]
  let ?T = "tabulate (Some example_results) None None"
  let ?F = "tabulate_sorted [zero_row] OVERALL example_color"
  have "map length (body ?T) = map (\<lambda>row. length (header ?T)) (body ?T)"
    by (rule map_cong [OF refl]) (use w in blast)
  then have 1: "map length (body ?T) = [6, 6]"
    by (simp add: tabulate_example_results)
  have b: "length (body ?F) = 1"
    by (simp add: tabulate_sorted_def Let_def sortRows_def sort_by_def)
  have c: "columns (header ?F) = 23"
    by (simp add: tabulate_sorted_def Let_def columns_def
        columns_stepHeaders [unfolded columns_def] length_funnelSteps)
  have "map columns (body ?F) = map (\<lambda>row. columns (header ?F)) (body ?F)"
    by (rule map_cong [OF refl]) (use w in blast)
  then have "map columns (body ?F) = replicate (length (body ?F)) 23"
    by (simp add: c map_replicate_const)
  then have 2: "map columns (body ?F) = [23]"
    by (simp add: b)
  from 1 2 show ?thesis
    by simp
qed

subsection \<open>Days of a date range\<close>

lemma msPerDay_pos: "0 < msPerDay"
  by (simp add: msPerDay_def)

lemma floor_multiple: "0 < D \<Longrightarrow> D dvd c \<Longrightarrow> (c + D) div D * D = c + D" for c D :: int
  by (auto simp: dvd_def algebra_simps)

lemma next_multiple: "0 < D \<Longrightarrow> D dvd c \<Longrightarrow> D dvd d \<Longrightarrow> c < d \<Longrightarrow> c + D \<le> d"
  for c d D :: int
proof -
  assume D: "0 < D" and "D dvd c" "D dvd d" and lt: "c < d"
  then obtain k m where c: "c = D * k" and d: "d = D * m"
    by (auto simp: dvd_def)
  from lt D have "k < m"
    by (simp add: c d)
  then have "k + 1 \<le> m"
    by simp
  then have "D * (k + 1) \<le> D * m"
    using D by (simp only: mult_le_cancel_left_pos)
  then show ?thesis
    by (simp add: c d algebra_simps)
qed

lemma utcDay_floor_day: "msPerDay dvd c \<Longrightarrow> utcDay_floor (c + msPerDay) = c + msPerDay"
  unfolding utcDay_floor_def using msPerDay_pos by (rule floor_multiple)

lemma set_utcDays_from:
  "msPerDay dvd cur \<Longrightarrow>
   set (utcDays_from cur stop) = {d. msPerDay dvd d \<and> cur \<le> d \<and> d < stop}"
proof (induction cur stop rule: utcDays_from.induct)
  case (1 cur stop)
  show ?case
  proof (cases "cur < stop")
    case True
    have dv: "msPerDay dvd cur + msPerDay"
      using "1.prems" by simp
    have "set (utcDays_from (cur + msPerDay) stop)
        = {d. msPerDay dvd d \<and> cur + msPerDay \<le> d \<and> d < stop}"
      using "1.IH" [OF True] dv by (simp add: utcDay_floor_day "1.prems")
    moreover have "{d. msPerDay dvd d \<and> cur \<le> d \<and> d < stop}
        = insert cur {d. msPerDay dvd d \<and> cur + msPerDay \<le> d \<and> d < stop}"
    proof (intro set_eqI iffI)
      fix d
      assume "d \<in> {d. msPerDay dvd d \<and> cur \<le> d \<and> d < stop}"
      then have d: "msPerDay dvd d" "cur \<le> d" "d < stop"
        by simp_all
      show "d \<in> insert cur {d. msPerDay dvd d \<and> cur + msPerDay \<le> d \<and> d < stop}"
      proof (cases "d = cur")
        case False
        with d have "cur < d" by simp
        then have "cur + msPerDay \<le> d"
          using next_multiple [OF msPerDay_pos "1.prems" d(1)] by simp
        with d show ?thesis by simp
      qed simp
    next
      fix d
      assume "d \<in> insert cur {d. msPerDay dvd d \<and> cur + msPerDay \<le> d \<and> d < stop}"
      then show "d \<in> {d. msPerDay dvd d \<and> cur \<le> d \<and> d < stop}"
        using True "1.prems" msPerDay_pos by auto
    qed
    ultimately show ?thesis
      using True by (subst utcDays_from.simps) (simp add: utcDay_floor_day "1.prems")
  next
    case False
    then show ?thesis
      by (subst utcDays_from.simps) auto
  qed
qed

lemma sorted_utcDays_from:
  "msPerDay dvd cur \<Longrightarrow> sorted_wrt (<) (utcDays_from cur stop)"
proof (induction cur stop rule: utcDays_from.induct)
  case (1 cur stop)
  show ?case
  proof (cases "cur < stop")
    case True
    have dv: "msPerDay dvd cur + msPerDay"
      using "1.prems" by simp
    have "sorted_wrt (<) (utcDays_from (cur + msPerDay) stop)"
      using "1.IH" [OF True] dv by (simp add: utcDay_floor_day "1.prems")
    moreover have "\<forall>d \<in> set (utcDays_from (cur + msPerDay) stop). cur < d"
      using msPerDay_pos by (auto simp: set_utcDays_from [OF dv])
    ultimately show ?thesis
      using True by (subst utcDays_from.simps) (simp add: utcDay_floor_day "1.prems")
  next
    case False
    then show ?thesis
      by (subst utcDays_from.simps) auto
  qed
qed

lemma utcDay_floor_dvd: "msPerDay dvd utcDay_floor t"
  by (simp add: utcDay_floor_def)

lemma utcDay_ceil_dvd: "msPerDay dvd utcDay_ceil t"
  by (simp add: utcDay_ceil_def utcDay_floor_dvd)

lemma utcDay_ceil_eq: "utcDay_ceil t = ((t - 1) div msPerDay + 1) * msPerDay"
proof -
  have "utcDay_ceil t = utcDay_floor (t - 1) + msPerDay"
    unfolding utcDay_ceil_def by (rule utcDay_floor_day) (rule utcDay_floor_dvd)
  then show ?thesis
    by (simp add: utcDay_floor_def algebra_simps)
qed

lemma ceil_multiple_ge: "0 < D \<Longrightarrow> t \<le> ((t - 1) div D + 1) * D" for t D :: int
proof -
  assume D: "0 < D"
  have e: "(t - 1) div D * D = (t - 1) - (t - 1) mod D"
    by (simp add: minus_mod_eq_div_mult)
  have m: "(t - 1) mod D < D"
    using D by simp
  have "((t - 1) div D + 1) * D = (t - 1) div D * D + D"
    by (simp add: algebra_simps)
  with e m show ?thesis
    by linarith
qed

lemma ceil_multiple_least: "0 < D \<Longrightarrow> D dvd d \<Longrightarrow> t \<le> d \<Longrightarrow> ((t - 1) div D + 1) * D \<le> d"
  for t d D :: int
proof -
  assume D: "0 < D" and "D dvd d" and le: "t \<le> d"
  then obtain m where d: "d = m * D"
    by (auto simp: dvd_def)
  have e: "(t - 1) div D * D = (t - 1) - (t - 1) mod D"
    by (simp add: minus_mod_eq_div_mult)
  have "0 \<le> (t - 1) mod D"
    using D by simp
  with e le have "(t - 1) div D * D < m * D"
    unfolding d by linarith
  then have "(t - 1) div D < m"
    using D by (simp only: mult_less_cancel_right_pos)
  then have "(t - 1) div D + 1 \<le> m"
    by simp
  then have "((t - 1) div D + 1) * D \<le> m * D"
    using D by (simp only: mult_le_cancel_right_pos)
  then show ?thesis
    by (simp add: d)
qed

lemma set_utcDays: "set (utcDays start finish) = {d. msPerDay dvd d \<and> start \<le> d \<and> d < finish}"
proof -
  have "{d. msPerDay dvd d \<and> utcDay_ceil start \<le> d \<and> d < finish}
      = {d. msPerDay dvd d \<and> start \<le> d \<and> d < finish}"
    using ceil_multiple_ge [OF msPerDay_pos, of start]
      ceil_multiple_least [OF msPerDay_pos, of _ start]
    by (auto simp: utcDay_ceil_eq)
  then show ?thesis
    by (simp add: utcDays_def set_utcDays_from utcDay_ceil_dvd)
qed

lemma sorted_utcDays: "sorted_wrt (<) (utcDays start finish)"
  by (simp add: utcDays_def sorted_utcDays_from utcDay_ceil_dvd)

lemma utcDays_example: "utcDays 1609459200000 1609632000000 = [1609459200000, 1609545600000]"
  by code_simp

subsection \<open>Promises\<close>

lemma first_rejection_None:
  "first_rejection ps = None \<longleftrightarrow> (\<forall>t e. (t, Inl e) \<notin> set ps)"
  by (induction ps rule: first_rejection.induct) (auto split: option.splits)

lemma first_rejection_Some:
  "first_rejection ps = Some (t, e) \<Longrightarrow>
   (t, Inl e) \<in> set ps \<and> (\<forall>t' e'. (t', Inl e') \<in> set ps \<longrightarrow> t \<le> t')"
proof (induction ps arbitrary: t e rule: first_rejection.induct)
  case 1
  then show ?case by simp
next
  case (2 t0 e0 ps)
  show ?case
  proof (cases "first_rejection ps")
    case None
    with "2.prems" have "t = t0" "e = e0"
      by simp_all
    moreover from None have "\<forall>t e. (t, Inl e) \<notin> set ps"
      by (simp add: first_rejection_None)
    ultimately show ?thesis
      by auto
  next
    case (Some a)
    obtain t1 e1 where a: "a = (t1, e1)"
      by (cases a)
    from "2.IH" [of t1 e1] Some a
    have ih: "(t1, Inl e1) \<in> set ps" "\<forall>t' e'. (t', Inl e') \<in> set ps \<longrightarrow> t1 \<le> t'"
      by simp_all
    show ?thesis
    proof (cases "t1 < t0")
      case True
      with "2.prems" Some a have "t = t1" "e = e1"
        by simp_all
      with ih True show ?thesis
        by auto
    next
      case False
      with "2.prems" Some a have "t = t0" "e = e0"
        by simp_all
      with ih False show ?thesis
        by fastforce
    qed
  qed
next
  case (3 t0 v ps)
  then show ?case
    by auto
qed

lemma fulfilled_all:
  "\<forall>p \<in> set ps. \<exists>v. snd p = Inr v \<Longrightarrow>
   first_rejection ps = None \<and> map snd ps = map Inr (fulfilled ps)"
  by (induction ps rule: first_rejection.induct) auto

lemma promise_all_rejects:
  assumes "(t0, Inl e0) \<in> set ps"
  shows "\<exists>t e. promise_all ps = (t, Inl e) \<and> (t, Inl e) \<in> set ps
           \<and> (\<forall>t' e'. (t', Inl e') \<in> set ps \<longrightarrow> t \<le> t')"
proof -
  from assms have "first_rejection ps \<noteq> None"
    by (auto simp: first_rejection_None)
  then obtain t e where fr: "first_rejection ps = Some (t, e)"
    by (cases "first_rejection ps") auto
  then have "promise_all ps = (t, Inl e)"
    by (simp add: promise_all_def)
  with first_rejection_Some [OF fr] show ?thesis
    by blast
qed

lemma then_value_rejected: "then_value (t, Inl e) f = (t, Inl e)"
  by (simp add: then_value_def)

lemma promise_all_fulfilled:
  "\<forall>p \<in> set ps. \<exists>v. snd p = Inr v \<Longrightarrow> snd (promise_all ps) = Inr (fulfilled ps)"
  by (simp add: promise_all_def fulfilled_all)

lemma then_value_fulfilled: "snd p = Inr v \<Longrightarrow> snd (then_value p f) = Inr (f v)"
  by (simp add: then_value_def)

lemma then_promise_rejects:
  "snd (then_promise p f) = Inl e \<longleftrightarrow>
     snd p = Inl e \<or> (\<exists>v. snd p = Inr v \<and> snd (f v) = Inl e)"
  by (cases p) (auto simp: then_promise_def split: sum.splits)

subsection \<open>The loaders\<close>

lemma format_2021_01_01_path:
  "example_reportPath \<lparr> reportName = n, path_date = 1609459200000, path_env = e,
       extension = x \<rparr>
   = n @ ''/2021-01-01.'' @ (case x of None \<Rightarrow> ''json'' | Some e \<Rightarrow> e) @ ''?env='' @ e"
  by (simp add: example_reportPath_def format_2021_01_01)

lemma format_2021_01_02_path:
  "example_reportPath \<lparr> reportName = n, path_date = 1609545600000, path_env = e,
       extension = x \<rparr>
   = n @ ''/2021-01-02.'' @ (case x of None \<Rightarrow> ''json'' | Some e \<Rightarrow> e) @ ''?env='' @ e"
  by (simp add: example_reportPath_def format_2021_01_02)

lemma example_requests:
  "requests example_reportPath 1609459200000 1609632000000 ''prod''
   = [''daily-auths-report/2021-01-01.json?env=prod'',
      ''daily-auths-report/2021-01-02.json?env=prod'']"
  by (simp add: requests_def utcDays_example format_2021_01_01_path format_2021_01_02_path)

lemma example_requests_dropoffs:
  "requests_dropoffs example_reportPath 1609459200000 1609632000000 ''prod''
   = [''daily-dropoffs-report/2021-01-01.csv?env=prod'',
      ''daily-dropoffs-report/2021-01-02.csv?env=prod'']"
  by (simp add: requests_dropoffs_def utcDays_example format_2021_01_01_path
      format_2021_01_02_path)

lemma example_dayReports:
  "dayReports example_fetch example_reportPath 1609459200000 1609632000000 ''prod''
   = [(25, Inr example_report),
      (10, Inl (NetworkError ''daily-auths-report/2021-01-02.json?env=prod''))]"
  by (simp add: dayReports_def example_requests example_fetch_def then_promise_def)

lemma example_dayTexts:
  "dayTexts example_fetch example_reportPath 1609459200000 1609632000000 ''prod''
   = [(25, Inr ''csv''),
      (10, Inl (NetworkError ''daily-dropoffs-report/2021-01-02.csv?env=prod''))]"
  by (simp add: dayTexts_def example_requests_dropoffs example_fetch_def then_promise_def)

lemma process_date: "d \<in> set (process report) \<Longrightarrow> date d = report_start report"
  by (auto simp: process_def Let_def)

lemma loadData_fulfilled:
  assumes "\<forall>p \<in> set (dayReports fetch reportPath start finish env). \<exists>v. snd p = Inr v"
  shows "snd (loadData fetch reportPath start finish env)
         = Inr (concat (map process (fulfilled (dayReports fetch reportPath start finish env))))"
  unfolding loadData_def
  by (rule then_value_fulfilled) (rule promise_all_fulfilled [OF assms])

lemma loadData_dropoffs_fulfilled:
  assumes "\<forall>p \<in> set (dayTexts fetch reportPath start finish env). \<exists>v. snd p = Inr v"
  shows "snd (loadData_dropoffs fetch reportPath csvParse start finish env)
         = Inr (aggregate (concat (map (process_dropoffs csvParse)
                  (fulfilled (dayTexts fetch reportPath start finish env)))))"
  unfolding loadData_dropoffs_def
  by (rule then_value_fulfilled) (rule promise_all_fulfilled [OF assms])

text \<open>
  C4 (as the code has it): the loader fetches one path per UTC midnight \<open>d\<close> with
  \<open>start \<le> d < finish\<close>, in ascending order: the range is half open, and a
  \<open>finish\<close> that is itself a midnight is not fetched. When every day's request and
  parse succeed, the daily auths
  loader returns the processed rows of the reports concatenated in day order, each row
  tagged with the start date of its report; the daily dropoffs loader returns the
  concatenated rows aggregated per issuer.
\<close>

theorem loader_days:
  "set (utcDays start finish) = {d. msPerDay dvd d \<and> start \<le> d \<and> d < finish}
   \<and> sorted_wrt (<) (utcDays start finish)
   \<and> requests reportPath start finish env
       = map (\<lambda>date. reportPath \<lparr> reportName = ''daily-auths-report'', path_date = date,
                                 path_env = env, extension = None \<rparr>)
           (utcDays start finish)
   \<and> requests_dropoffs reportPath start finish env
       = map (\<lambda>date. reportPath \<lparr> reportName = ''daily-dropoffs-report'', path_date = date,
                                 path_env = env, extension = Some ''csv'' \<rparr>)
           (utcDays start finish)
   \<and> ((\<forall>p \<in> set (dayReports fetch reportPath start finish env). \<exists>v. snd p = Inr v) \<longrightarrow>
        map snd (dayReports fetch reportPath start finish env)
          = map Inr (fulfilled (dayReports fetch reportPath start finish env))
        \<and> snd (loadData fetch reportPath start finish env)
          = Inr (concat (map process
                   (fulfilled (dayReports fetch reportPath start finish env)))))
   \<and> (\<forall>d \<in> set (process report). date d = report_start report)
   \<and> ((\<forall>p \<in> set (dayTexts fetch reportPath start finish env). \<exists>v. snd p = Inr v) \<longrightarrow>
        map snd (dayTexts fetch reportPath start finish env)
          = map Inr (fulfilled (dayTexts fetch reportPath start finish env))
        \<and> snd (loadData_dropoffs fetch reportPath csvParse start finish env)
          = Inr (aggregate (concat (map (process_dropoffs csvParse)
                   (fulfilled (dayTexts fetch reportPath start finish env))))))"
  using set_utcDays [of start finish] sorted_utcDays [of start finish]
    loadData_fulfilled [of fetch reportPath start finish env]
    loadData_dropoffs_fulfilled [of fetch reportPath start finish env csvParse]
    fulfilled_all [of "dayReports fetch reportPath start finish env"]
    fulfilled_all [of "dayTexts fetch reportPath start finish env"]
    process_date [of _ report]
  by (simp add: requests_def requests_dropoffs_def)

lemma example_dayReports_ok:
  "dayReports example_fetch_ok example_reportPath 1609459200000 1609632000000 ''prod''
   = [(25, Inr example_report), (25, Inr example_report)]"
  by (simp add: dayReports_def example_requests example_fetch_ok_def then_promise_def)

lemma example_dayTexts_ok:
  "dayTexts example_fetch_ok example_reportPath 1609459200000 1609632000000 ''prod''
   = [(25, Inr ''csv''), (25, Inr ''csv'')]"
  by (simp add: dayTexts_def example_requests_dropoffs example_fetch_ok_def then_promise_def)

theorem loader_days_witness:
  "requests example_reportPath 1609459200000 1609632000000 ''prod''
     = [''daily-auths-report/2021-01-01.json?env=prod'',
        ''daily-auths-report/2021-01-02.json?env=prod'']
   \<and> snd (loadData example_fetch_ok example_reportPath 1609459200000 1609632000000 ''prod'')
     = Inr (process example_report @ process example_report)
   \<and> map date (process example_report) = [1609459200000]
   \<and> snd (loadData_dropoffs example_fetch_ok example_reportPath (\<lambda>s. [example_parsed_row])
            1609459200000 1609632000000 ''prod'')
     = Inr (aggregate (process_dropoffs (\<lambda>s. [example_parsed_row]) ''csv''
                       @ process_dropoffs (\<lambda>s. [example_parsed_row]) ''csv''))"
proof -
  note w = loader_days [where start = 1609459200000 and finish = 1609632000000
      and reportPath = example_reportPath and env = "''prod''" and fetch = example_fetch_ok
      and report = example_report and csvParse = "\<lambda>s. [example_parsed_row]"]
  have 1: "requests example_reportPath 1609459200000 1609632000000 ''prod''
     = [''daily-auths-report/2021-01-01.json?env=prod'',
        ''daily-auths-report/2021-01-02.json?env=prod'']"
    using w by (simp add: utcDays_example format_2021_01_01_path format_2021_01_02_path)
  have 2: "snd (loadData example_fetch_ok example_reportPath 1609459200000 1609632000000 ''prod'')
     = Inr (process example_report @ process example_report)"
    using w by (simp add: example_dayReports_ok)
  have "map date (process example_report)
      = map (\<lambda>d. report_start example_report) (process example_report)"
    by (rule map_cong [OF refl]) (use w in blast)
  then have 3: "map date (process example_report) = [1609459200000]"
    by (simp add: process_def example_report_def)
  have 4: "snd (loadData_dropoffs example_fetch_ok example_reportPath (\<lambda>s. [example_parsed_row])
            1609459200000 1609632000000 ''prod'')
     = Inr (aggregate (process_dropoffs (\<lambda>s. [example_parsed_row]) ''csv''
                       @ process_dropoffs (\<lambda>s. [example_parsed_row]) ''csv''))"
    using w by (simp add: example_dayTexts_ok)
  from 1 2 3 4 show ?thesis
    by simp
qed

text \<open>
  C4 as stated fails: for the range from 2021-01-01 to 2021-01-03 the loader fetches the
  files of 2021-01-01 and 2021-01-02 only.
\<close>

theorem finish_day_not_fetched_counterexample:
  "requests example_reportPath 1609459200000 1609632000000 ''prod''
     = [''daily-auths-report/2021-01-01.json?env=prod'',
        ''daily-auths-report/2021-01-02.json?env=prod'']
   \<and> yearMonthDayFormat 1609632000000 = ''2021-01-03''"
proof -
  have "yearMonthDayFormat 1609632000000 = ''2021-01-03''"
    by code_simp
  then show ?thesis
    by (simp add: example_requests)
qed

subsection \<open>Aggregation of funnel rows\<close>

lemma sumSteps_row:
  "foldl (\<lambda>acc (key, title). acc(key \<mapsto> c key + count_or_zero (acc key))) acc STEPS
   = (\<lambda>k. Some (c k + count_or_zero (acc k)))"
proof (rule ext)
  fix k
  show "foldl (\<lambda>acc (key, title). acc(key \<mapsto> c key + count_or_zero (acc key))) acc STEPS k
        = Some (c k + count_or_zero (acc k))"
    by (cases k) (simp_all add: STEPS_def)
qed

lemma sumSteps_snoc:
  "sumSteps (bin @ [r]) = (\<lambda>k. Some (count_or_zero (steps r k) + count_or_zero (sumSteps bin k)))"
  by (simp add: sumSteps_def Let_def sumSteps_row)

lemma sumSteps_Nil: "sumSteps [] = (\<lambda>k. None)"
  by (simp add: sumSteps_def)

lemma sumSteps_eq: "sumSteps bin k = (if bin = [] then None else Some (stepSum bin k))"
proof (induction bin rule: rev_induct)
  case Nil
  show ?case by (simp add: sumSteps_Nil)
next
  case (snoc r bin)
  then show ?case
    by (simp add: sumSteps_snoc stepSum_def count_or_zero_def)
qed

lemma aggregate_compare:
  "(\<lambda>(issuerA, binA) (issuerB, binB).
       js_or (ascending issuerA issuerB)
             (ascending (friendly_name (hd binA)) (friendly_name (hd binB))))
   = (\<lambda>p q :: string \<times> DailyDropoffsRow list.
        ascending (fst p, friendly_name (hd (snd p))) (fst q, friendly_name (hd (snd q))))"
  by (auto simp: fun_eq_iff js_or_ascending)

theorem aggregate_eq:
  "aggregate rows =
     map (\<lambda>i. binRow (rowsOfIssuer rows i)) (sort (array_from_set (map issuer rows)))"
proof -
  let ?ks = "array_from_set (map issuer rows)"
  have "sort_by (\<lambda>(issuerA, binA) (issuerB, binB).
                   js_or (ascending issuerA issuerB)
                         (ascending (friendly_name (hd binA)) (friendly_name (hd binB))))
          (d3_group issuer rows)
      = sort_key (\<lambda>p. (fst p, friendly_name (hd (snd p))))
          (map (\<lambda>k. (k, rowsOfIssuer rows k)) ?ks)"
    by (simp only: aggregate_compare sort_by_key d3_group_eq rowsOfIssuer_def)
  also have "\<dots> = map (\<lambda>k. (k, rowsOfIssuer rows k))
                    (sort_key (\<lambda>k. (k, friendly_name (hd (rowsOfIssuer rows k)))) ?ks)"
    by (simp add: sort_key_map)
  also have "\<dots> = map (\<lambda>k. (k, rowsOfIssuer rows k)) (sort ?ks)"
    by (simp only: sort_key_pair)
  finally show ?thesis
    by (simp add: aggregate_def o_def)
qed

lemma rowsOfIssuer_hd:
  assumes "i \<in> issuer ` set rows"
  shows "rowsOfIssuer rows i \<noteq> []"
    and "hd (rowsOfIssuer rows i) \<in> set rows"
    and "issuer (hd (rowsOfIssuer rows i)) = i"
proof -
  from assms show ne: "rowsOfIssuer rows i \<noteq> []"
    by (auto simp: rowsOfIssuer_def filter_empty_conv)
  then have "hd (rowsOfIssuer rows i) \<in> set (rowsOfIssuer rows i)"
    by (rule hd_in_set)
  then show "hd (rowsOfIssuer rows i) \<in> set rows" "issuer (hd (rowsOfIssuer rows i)) = i"
    by (simp_all add: rowsOfIssuer_def)
qed

lemma issuer_binRow: "i \<in> issuer ` set rows \<Longrightarrow> issuer (binRow (rowsOfIssuer rows i)) = i"
  by (simp add: binRow_def rowsOfIssuer_hd)

lemma issuers_aggregate: "map issuer (aggregate rows) = sort (array_from_set (map issuer rows))"
proof -
  have "map (\<lambda>i. issuer (binRow (rowsOfIssuer rows i))) (sort (array_from_set (map issuer rows)))
      = map (\<lambda>i. i) (sort (array_from_set (map issuer rows)))"
    by (rule map_cong [OF refl]) (simp add: issuer_binRow)
  then show ?thesis
    by (simp add: aggregate_eq o_def)
qed

lemma steps_binRow:
  "i \<in> issuer ` set rows \<Longrightarrow>
   steps (binRow (rowsOfIssuer rows i)) = (\<lambda>k. Some (stepSum (rowsOfIssuer rows i) k))"
  by (simp add: binRow_def sumSteps_eq rowsOfIssuer_hd fun_eq_iff)

lemma filter_eq_single: "distinct xs \<Longrightarrow> i \<in> set xs \<Longrightarrow> filter (\<lambda>j. j = i) xs = [i]"
  by (induction xs) (auto simp: filter_empty_conv)

lemma binRow_single:
  assumes "\<forall>k. steps r k \<noteq> None"
  shows "binRow [r] = r"
proof -
  have "sumSteps [r] = steps r"
  proof (rule ext)
    fix k
    from assms [rule_format, of k] obtain v where "steps r k = Some v"
      by (cases "steps r k") auto
    then show "sumSteps [r] k = steps r k"
      using sumSteps_snoc [of "[]" r] by (simp add: sumSteps_Nil count_or_zero_def)
  qed
  then show ?thesis
    by (simp add: binRow_def)
qed

lemma aggregate_aggregate: "aggregate (aggregate rows) = aggregate rows"
proof -
  let ?S = "sort (array_from_set (map issuer rows))"
  let ?F = "\<lambda>i. binRow (rowsOfIssuer rows i)"
  have out: "aggregate rows = map ?F ?S"
    by (rule aggregate_eq)
  have S: "distinct ?S" "sorted ?S" "set ?S = issuer ` set rows"
    by simp_all
  have iss: "map issuer (aggregate rows) = ?S"
    by (rule issuers_aggregate)
  have keys: "sort (array_from_set (map issuer (aggregate rows))) = ?S"
    using S by (simp add: iss array_from_set_distinct sorted_sort_id)
  have "binRow (rowsOfIssuer (aggregate rows) i) = ?F i" if "i \<in> set ?S" for i
  proof -
    from that have i: "i \<in> issuer ` set rows"
      by simp
    have "rowsOfIssuer (aggregate rows) i = map ?F (filter (\<lambda>j. issuer (?F j) = i) ?S)"
      by (simp add: rowsOfIssuer_def out filter_map o_def)
    also have "filter (\<lambda>j. issuer (?F j) = i) ?S = filter (\<lambda>j. j = i) ?S"
      by (rule filter_cong [OF refl]) (simp add: issuer_binRow)
    also have "\<dots> = [i]"
      using S(1) that by (rule filter_eq_single)
    finally have "rowsOfIssuer (aggregate rows) i = [?F i]"
      by simp
    moreover have "\<forall>k. steps (?F i) k \<noteq> None"
      by (simp add: steps_binRow [OF i])
    ultimately show ?thesis
      by (simp add: binRow_single)
  qed
  then have "map (\<lambda>i. binRow (rowsOfIssuer (aggregate rows) i)) ?S = map ?F ?S"
    by (intro map_cong [OF refl])
  then show ?thesis
    by (simp add: aggregate_eq [of "aggregate rows"] keys out [symmetric])
qed

lemma aggregate_filter_agency:
  assumes fd: "\<forall>r \<in> set rows. \<forall>r' \<in> set rows. issuer r = issuer r' \<longrightarrow> agency r = agency r'"
  shows "filter (\<lambda>r. agency r = a) (aggregate rows) = aggregate (filter (\<lambda>r. agency r = a) rows)"
proof -
  let ?ks = "array_from_set (map issuer rows)"
  let ?Q = "\<lambda>i. \<exists>r \<in> set rows. issuer r = i \<and> agency r = a"
  let ?rows' = "filter (\<lambda>r. agency r = a) rows"
  have PQ: "agency r = a \<longleftrightarrow> ?Q (issuer r)" if "r \<in> set rows" for r
    using that fd by metis
  have rows': "?rows' = filter (\<lambda>r. ?Q (issuer r)) rows"
    by (rule filter_cong [OF refl]) (rule PQ)
  have keys': "sort (array_from_set (map issuer ?rows')) = filter ?Q (sort ?ks)"
  proof -
    have "map issuer (filter (\<lambda>r. ?Q (issuer r)) rows) = filter ?Q (map issuer rows)"
      by (simp add: filter_map o_def)
    then show ?thesis
      by (simp only: rows' array_from_set_filter filter_sort)
  qed
  have bins: "rowsOfIssuer ?rows' i = rowsOfIssuer rows i" if "?Q i" for i
  proof -
    have "filter (\<lambda>r. issuer r = i \<and> agency r = a) rows = filter (\<lambda>r. issuer r = i) rows"
      by (rule filter_cong [OF refl]) (use that fd in metis)
    then show ?thesis
      by (simp add: rowsOfIssuer_def conj_commute)
  qed
  have right: "aggregate ?rows' = map (\<lambda>i. binRow (rowsOfIssuer rows i)) (filter ?Q (sort ?ks))"
    unfolding aggregate_eq [of ?rows'] keys'
    by (rule map_cong [OF refl]) (simp add: bins)
  have "filter (\<lambda>i. agency (binRow (rowsOfIssuer rows i)) = a) (sort ?ks) = filter ?Q (sort ?ks)"
  proof (rule filter_cong [OF refl])
    fix i
    assume "i \<in> set (sort ?ks)"
    then have i: "i \<in> issuer ` set rows"
      by simp
    have "agency (hd (rowsOfIssuer rows i)) = a \<longleftrightarrow> ?Q (issuer (hd (rowsOfIssuer rows i)))"
      by (rule PQ) (rule rowsOfIssuer_hd [OF i])
    then show "agency (binRow (rowsOfIssuer rows i)) = a \<longleftrightarrow> ?Q i"
      by (simp add: binRow_def rowsOfIssuer_hd [OF i])
  qed
  then have "filter (\<lambda>r. agency r = a) (aggregate rows)
      = map (\<lambda>i. binRow (rowsOfIssuer rows i)) (filter ?Q (sort ?ks))"
    by (simp add: aggregate_eq filter_map o_def)
  with right show ?thesis
    by simp
qed

subsection \<open>The daily auths table, group by group\<close>

lemma sorted_groups:
  "sort_by (\<lambda>(a, _) (b, _). ascending a b) (map (\<lambda>(k, bin). (k, h bin)) (d3_group f xs))
   = map (\<lambda>k. (k, h (filter (\<lambda>x. f x = k) xs))) (sort (array_from_set (map f xs)))"
proof -
  have "map (\<lambda>(k, bin). (k, h bin)) (d3_group f xs)
      = map (\<lambda>k. (k, h (filter (\<lambda>x. f x = k) xs))) (array_from_set (map f xs))"
    by (simp add: d3_group_eq o_def)
  then show ?thesis
    by (simp add: sort_by_fst sort_key_map)
qed

lemma grouped_sorted:
  "sort_by (\<lambda>(a, _) (b, _). ascending a b) (grouped rows)
   = map (\<lambda>a. (a, map (\<lambda>(i, bin'). (i, d3_group ial bin'))
                     (d3_group issuer (filter (\<lambda>r. agency r = a) rows))))
       (sort (array_from_set (map agency rows)))"
  unfolding grouped_def by (rule sorted_groups)

lemma tabulate_body:
  "body (tabulate rs fa fi) =
     map (\<lambda>(a, i, l). tabulateRow (daysOf (filterResults rs fa fi))
                         (friendlyNames (filterResults rs fa fi)) a i l
                         (groupRows (filterResults rs fa fi) a i l))
       (groupKeys (filterResults rs fa fi))"
proof -
  let ?F = "filterResults rs fa fi"
  let ?R = "tabulateRow (daysOf ?F) (friendlyNames ?F)"
  have "body (tabulate rs fa fi) =
      concat (map (\<lambda>(a, issuers).
                concat (map (\<lambda>(i, ials). map (\<lambda>(l, data). ?R a i l data) ials)
                  (sort_by (\<lambda>(issuerA, _) (issuerB, _). ascending issuerA issuerB) issuers)))
        (sort_by (\<lambda>(agencyA, _) (agencyB, _). ascending agencyA agencyB) (grouped ?F)))"
    by (simp add: tabulate_def Let_def)
  also have "\<dots> =
      concat (map (\<lambda>a.
                concat (map (\<lambda>(i, ials). map (\<lambda>(l, data). ?R a i l data) ials)
                  (map (\<lambda>i. (i, d3_group ial
                                   (filter (\<lambda>r. issuer r = i) (filter (\<lambda>r. agency r = a) ?F))))
                     (sort (array_from_set (map issuer (filter (\<lambda>r. agency r = a) ?F)))))))
        (sort (array_from_set (map agency ?F))))"
    by (simp add: grouped_sorted sorted_groups o_def)
  also have "\<dots> =
      concat (map (\<lambda>a.
                concat (map (\<lambda>i. map (\<lambda>l. ?R a i l (groupRows ?F a i l))
                                 (array_from_set (map ial (filter (\<lambda>r. agency r = a \<and> issuer r = i) ?F))))
                     (sort (array_from_set (map issuer (filter (\<lambda>r. agency r = a) ?F))))))
        (sort (array_from_set (map agency ?F))))"
    by (simp add: d3_group_eq o_def groupRows_def)
  also have "\<dots> = map (\<lambda>(a, i, l). ?R a i l (groupRows ?F a i l)) (groupKeys ?F)"
    by (simp add: groupKeys_def map_concat o_def)
  finally show ?thesis .
qed

lemma distinct_pairs:
  "distinct xs \<Longrightarrow> (\<forall>x \<in> set xs. distinct (h x)) \<Longrightarrow>
   distinct (concat (map (\<lambda>x. map (Pair x) (h x)) xs))"
  by (induction xs) (auto simp: distinct_map inj_on_def)

lemma set_pairs:
  "set (concat (map (\<lambda>x. map (Pair x) (h x)) xs)) = {(x, y). x \<in> set xs \<and> y \<in> set (h x)}"
  by auto

lemma sorted_pairs:
  "sorted_wrt (<) xs \<Longrightarrow> (\<forall>x \<in> set xs. sorted (h x)) \<Longrightarrow>
   sorted (concat (map (\<lambda>x. map (Pair x) (h x)) xs))"
proof (induction xs)
  case Nil
  show ?case by simp
next
  case (Cons x xs)
  have "sorted (map (Pair x) (h x))"
    using Cons.prems by (simp add: sorted_map sorted_wrt_iff_nth_less less_eq_prod_def)
  moreover have "sorted (concat (map (\<lambda>x. map (Pair x) (h x)) xs))"
    using Cons by simp
  moreover have "\<forall>p \<in> set (map (Pair x) (h x)).
                 \<forall>q \<in> set (concat (map (\<lambda>x. map (Pair x) (h x)) xs)). p \<le> q"
    using Cons.prems by (auto simp: less_eq_prod_def)
  ultimately show ?case
    by (simp add: sorted_append)
qed

lemma sorted_blocks:
  "sorted xs \<Longrightarrow> sorted (concat (map (\<lambda>i. map (\<lambda>l. i) (g i)) xs))"
proof (induction xs)
  case Nil
  show ?case by simp
next
  case (Cons x xs)
  have "map (\<lambda>l. x) (g x) = replicate (length (g x)) x"
    by (simp add: map_replicate_const)
  then have "sorted (map (\<lambda>l. x) (g x))"
    by (simp only: sorted_replicate)
  moreover have "sorted (concat (map (\<lambda>i. map (\<lambda>l. i) (g i)) xs))"
    using Cons by simp
  moreover have "\<forall>p \<in> set (map (\<lambda>l. x) (g x)).
                 \<forall>q \<in> set (concat (map (\<lambda>i. map (\<lambda>l. i) (g i)) xs)). p \<le> q"
    using Cons.prems by auto
  ultimately show ?case
    by (simp add: sorted_append)
qed

lemma strict_sorted_keys: "sorted_wrt (<) (sort (array_from_set xs))"
  by (simp add: strict_sorted_iff)

lemma groupKeys_distinct: "distinct (groupKeys rows)"
  unfolding groupKeys_def
  by (intro distinct_pairs ballI) simp_all

lemma groupKeys_set: "set (groupKeys rows) = (\<lambda>r. (agency r, issuer r, ial r)) ` set rows"
proof (intro set_eqI iffI)
  fix k
  assume "k \<in> set (groupKeys rows)"
  then show "k \<in> (\<lambda>r. (agency r, issuer r, ial r)) ` set rows"
    unfolding groupKeys_def set_pairs by (auto simp: image_iff) metis
next
  fix k
  assume "k \<in> (\<lambda>r. (agency r, issuer r, ial r)) ` set rows"
  then obtain r where r: "r \<in> set rows" "k = (agency r, issuer r, ial r)"
    by auto
  have "(agency r, issuer r, ial r) \<in> set (groupKeys rows)"
    unfolding groupKeys_def set_pairs using r(1) by (auto simp: image_iff)
  with r show "k \<in> set (groupKeys rows)"
    by simp
qed

lemma groupKeys_sorted: "sorted (map (\<lambda>(a, i, l). (a, i)) (groupKeys rows))"
proof -
  have "map (\<lambda>(a, i, l). (a, i)) (groupKeys rows)
      = concat (map (\<lambda>a. map (Pair a)
          (concat (map (\<lambda>i. map (\<lambda>l. i)
                     (array_from_set (map ial (filter (\<lambda>r. agency r = a \<and> issuer r = i) rows))))
                   (sort (array_from_set (map issuer (filter (\<lambda>r. agency r = a) rows)))))))
        (sort (array_from_set (map agency rows))))"
    by (simp add: groupKeys_def map_concat o_def)
  also have "sorted \<dots>"
    by (intro sorted_pairs ballI sorted_blocks strict_sorted_keys) simp
  finally show ?thesis .
qed

lemma tabulateRow_key [simp]:
  "cell_text (tabulateRow days names a i l data ! 0) = a"
  "cell_text (tabulateRow days names a i l data ! Suc 0) = i"
  by (simp_all add: tabulateRow_def Let_def)

lemma tabulate_sorted_by_agency_issuer:
  "sorted (map (\<lambda>row. (cell_text (row ! 0), cell_text (row ! 1))) (body (tabulate rs fa fi)))"
proof -
  have "map (\<lambda>row. (cell_text (row ! 0), cell_text (row ! 1))) (body (tabulate rs fa fi))
      = map (\<lambda>(a, i, l). (a, i)) (groupKeys (filterResults rs fa fi))"
    by (simp add: tabulate_body o_def case_prod_beta)
  then show ?thesis
    by (simp only: groupKeys_sorted)
qed

subsection \<open>The table summed by agency, group by group\<close>

lemma foldl_count: "foldl (\<lambda>sum d. sum + count d) s xs = s + sum_list (map count xs)"
  by (induction xs arbitrary: s) auto

lemma foldl_total: "foldl (\<lambda>d total. d + total) s xs = s + sum_list xs" for s :: int
  by (induction xs arbitrary: s) auto

lemma day_lookup:
  "(case map_of (map (\<lambda>(day, bin). (day, foldl (\<lambda>sum d. sum + count d) 0 bin))
                   (d3_group (\<lambda>d. yearMonthDayFormat (date d)) rows)) k of
      None \<Rightarrow> 0 | Some v \<Rightarrow> v)
   = sum_list (map count (filter (\<lambda>r. yearMonthDayFormat (date r) = k) rows))"
proof -
  let ?f = "\<lambda>d. yearMonthDayFormat (date d)"
  have m: "map (\<lambda>(day, bin). (day, foldl (\<lambda>sum d. sum + count d) 0 bin)) (d3_group ?f rows)
      = map (\<lambda>k. (k, sum_list (map count (filter (\<lambda>r. ?f r = k) rows))))
          (array_from_set (map ?f rows))"
    by (simp add: d3_group_eq o_def foldl_count)
  show ?thesis
  proof (cases "k \<in> ?f ` set rows")
    case True
    then show ?thesis
      unfolding m map_of_map_restrict by (simp add: restrict_map_def)
  next
    case False
    then have "filter (\<lambda>r. ?f r = k) rows = []"
      by (auto simp: filter_empty_conv)
    with False show ?thesis
      unfolding m map_of_map_restrict by (simp add: restrict_map_def)
  qed
qed

lemma rolledup_sorted:
  "sort_by (\<lambda>(a, _) (b, _). ascending a b) (rolledup rows)
   = map (\<lambda>a. (a, map (\<lambda>(l, bin'). (l,
                  map (\<lambda>(day, bin''). (day, foldl (\<lambda>sum d. sum + count d) 0 bin''))
                    (d3_group (\<lambda>d. yearMonthDayFormat (date d)) bin')))
                (d3_group ial (filter (\<lambda>r. agency r = a) rows))))
       (sort (array_from_set (map agency rows)))"
  unfolding rolledup_def by (rule sorted_groups)

lemma sumRow_eq:
  "sumRow u days a l
     (map (\<lambda>(day, bin). (day, foldl (\<lambda>sum d. sum + count d) 0 bin))
        (d3_group (\<lambda>d. yearMonthDayFormat (date d))
           (filter (\<lambda>r. agency r = a \<and> ial r = l) rows)))
   = [Link (u a) a, Text (string_of_nat l)]
     @ map (\<lambda>d. Num (agencyDaySum rows a l d)) days
     @ [Num (sum_list (map (agencyDaySum rows a l) days))]"
proof -
  have "(\<lambda>d. case map_of (map (\<lambda>(day, bin). (day, foldl (\<lambda>sum d. sum + count d) 0 bin))
                   (d3_group (\<lambda>d. yearMonthDayFormat (date d))
                      (filter (\<lambda>r. agency r = a \<and> ial r = l) rows)))
                 (yearMonthDayFormat d) of
               None \<Rightarrow> 0 | Some v \<Rightarrow> v)
      = agencyDaySum rows a l"
    by (rule ext) (simp add: day_lookup agencyDaySum_def)
  then show ?thesis
    by (simp add: sumRow_def Let_def foldl_total o_def)
qed

lemma tabulateSumByAgency_body:
  "body (tabulateSumByAgency u rs fi) =
     map (\<lambda>(a, l). [Link (u a) a, Text (string_of_nat l)]
                    @ map (\<lambda>d. Num (agencyDaySum (filterByIal rs fi) a l d))
                        (daysOf (filterByIal rs fi))
                    @ [Num (sum_list (map (agencyDaySum (filterByIal rs fi) a l)
                                       (daysOf (filterByIal rs fi))))])
       (agencyKeys (filterByIal rs fi))"
proof -
  let ?F = "filterByIal rs fi"
  have "body (tabulateSumByAgency u rs fi) =
      concat (map (\<lambda>(a, ials). map (\<lambda>(l, ialDays). sumRow u (daysOf ?F) a l ialDays) ials)
        (sort_by (\<lambda>(agencyA, _) (agencyB, _). ascending agencyA agencyB) (rolledup ?F)))"
    by (simp add: tabulateSumByAgency_def Let_def)
  also have "\<dots> =
      concat (map (\<lambda>a. map (\<lambda>l. sumRow u (daysOf ?F) a l
                 (map (\<lambda>(day, bin). (day, foldl (\<lambda>sum d. sum + count d) 0 bin))
                    (d3_group (\<lambda>d. yearMonthDayFormat (date d))
                       (filter (\<lambda>r. agency r = a \<and> ial r = l) ?F))))
               (array_from_set (map ial (filter (\<lambda>r. agency r = a) ?F))))
        (sort (array_from_set (map agency ?F))))"
    by (simp add: rolledup_sorted d3_group_eq o_def)
  also have "\<dots> = map (\<lambda>(a, l). [Link (u a) a, Text (string_of_nat l)]
                    @ map (\<lambda>d. Num (agencyDaySum ?F a l d)) (daysOf ?F)
                    @ [Num (sum_list (map (agencyDaySum ?F a l) (daysOf ?F)))])
       (agencyKeys ?F)"
    by (simp only: sumRow_eq) (simp add: agencyKeys_def map_concat o_def)
  finally show ?thesis .
qed

lemma agencyKeys_distinct: "distinct (agencyKeys rows)"
  unfolding agencyKeys_def
  by (intro distinct_pairs ballI) simp_all

lemma agencyKeys_set: "set (agencyKeys rows) = (\<lambda>r. (agency r, ial r)) ` set rows"
proof (intro set_eqI iffI)
  fix k
  assume "k \<in> set (agencyKeys rows)"
  then show "k \<in> (\<lambda>r. (agency r, ial r)) ` set rows"
    unfolding agencyKeys_def set_pairs by (auto simp: image_iff) metis
next
  fix k
  assume "k \<in> (\<lambda>r. (agency r, ial r)) ` set rows"
  then obtain r where r: "r \<in> set rows" "k = (agency r, ial r)"
    by auto
  have "(agency r, ial r) \<in> set (agencyKeys rows)"
    unfolding agencyKeys_def set_pairs using r(1) by (auto simp: image_iff)
  with r show "k \<in> set (agencyKeys rows)"
    by simp
qed

lemma agencyKeys_sorted: "sorted (map fst (agencyKeys rows))"
proof -
  have "map fst (agencyKeys rows)
      = concat (map (\<lambda>a. map (\<lambda>l. a) (array_from_set (map ial (filter (\<lambda>r. agency r = a) rows))))
                  (sort (array_from_set (map agency rows))))"
    by (simp add: agencyKeys_def map_concat o_def)
  also have "sorted \<dots>"
    by (intro sorted_blocks) simp
  finally show ?thesis .
qed

lemma tabulateSumByAgency_sorted:
  "sorted (map (\<lambda>row. cell_text (row ! 0)) (body (tabulateSumByAgency u rs fi)))"
proof -
  have "map (\<lambda>row. cell_text (row ! 0)) (body (tabulateSumByAgency u rs fi))
      = map fst (agencyKeys (filterByIal rs fi))"
    by (simp add: tabulateSumByAgency_body o_def case_prod_beta)
  then show ?thesis
    by (simp only: agencyKeys_sorted)
qed

subsection \<open>Day cells of the daily auths table\<close>

lemma filter_key_le_1: "distinct (map f xs) \<Longrightarrow> length (filter (\<lambda>x. f x = k) xs) \<le> 1"
  by (induction xs) (auto simp: filter_empty_conv image_iff)

lemma dayCount_daySum:
  assumes "distinct (map (\<lambda>r. (agency r, issuer r, ial r, date r)) rows)"
  shows "dayCount (groupRows rows a i l) d = daySum (groupRows rows a i l) d"
proof -
  have "filter (\<lambda>r. date r = d) (groupRows rows a i l)
      = filter (\<lambda>r. (agency r, issuer r, ial r, date r) = (a, i, l, d)) rows"
    by (simp add: groupRows_def conj_commute conj_left_commute)
  with filter_key_le_1 [OF assms, of "(a, i, l, d)"]
  have "length (filter (\<lambda>r. date r = d) (groupRows rows a i l)) \<le> 1"
    by simp
  then show ?thesis
    by (cases "filter (\<lambda>r. date r = d) (groupRows rows a i l)")
       (simp_all add: dayCount_def daySum_def)
qed

lemma tabulateRow_daySum:
  assumes "distinct (map (\<lambda>r. (agency r, issuer r, ial r, date r)) rows)"
  shows "tabulateRow days names a i l (groupRows rows a i l)
       = [Text a, Span i (names i), Text (string_of_nat l)]
         @ map (\<lambda>d. Num (daySum (groupRows rows a i l) d)) days
         @ [Num (sum_list (map (daySum (groupRows rows a i l)) days))]"
proof -
  have "dayCount (groupRows rows a i l) = daySum (groupRows rows a i l)"
    by (rule ext) (rule dayCount_daySum [OF assms])
  then show ?thesis
    by (simp add: tabulateRow_def Let_def foldl_total o_def)
qed

subsection \<open>Order of the funnel rows\<close>

lemma sortRows_eq: "sortRows rows = sort_key (\<lambda>r. (agency r, friendly_name r)) rows"
  by (simp add: sortRows_def js_or_ascending sort_by_key)

lemma tabulate_sorted_body_keys:
  "map (\<lambda>row. (cell_text (row ! 0), cell_text (row ! 1))) (body (tabulate_sorted rows m c))
   = map (\<lambda>r. (agency r, friendly_name r)) (sortRows rows)"
  by (simp add: tabulate_sorted_def Let_def o_def)

lemma tabulate_dropoffs_body_keys:
  "map (\<lambda>row. (cell_text (row ! 0), cell_text (row ! 1)))
     (body (tabulate_dropoffs (Some rows) m f c))
   = map (\<lambda>r. (agency r, friendly_name r))
       (filter (\<lambda>r. no_agency_filter f \<or> Some (agency r) = f) rows)"
  by (simp add: tabulate_dropoffs_def Let_def o_def)

lemma sorted_aggregate: "sorted (map issuer (aggregate rows)) \<and> distinct (map issuer (aggregate rows))"
  by (simp add: issuers_aggregate)

subsection \<open>Grouping and summing\<close>

lemma daysOf_eq: "daysOf rows = sort (array_from_set (map date rows))"
  by (simp add: daysOf_def sort_by_minus)

lemma aggregate_steps:
  "map (\<lambda>r. (issuer r, steps r)) (aggregate rows)
   = map (\<lambda>i. (i, \<lambda>k. Some (stepSum (rowsOfIssuer rows i) k)))
       (sort (array_from_set (map issuer rows)))"
proof -
  have "map (\<lambda>i. (issuer (binRow (rowsOfIssuer rows i)), steps (binRow (rowsOfIssuer rows i))))
          (sort (array_from_set (map issuer rows)))
      = map (\<lambda>i. (i, \<lambda>k. Some (stepSum (rowsOfIssuer rows i) k)))
          (sort (array_from_set (map issuer rows)))"
    by (rule map_cong [OF refl]) (simp add: issuer_binRow steps_binRow)
  then show ?thesis
    by (simp add: aggregate_eq o_def)
qed

lemma tabulateRow_dayCount:
  "tabulateRow days names a i l data
   = [Text a, Span i (names i), Text (string_of_nat l)]
     @ map (\<lambda>d. Num (dayCount data d)) days
     @ [Num (sum_list (map (dayCount data) days))]"
  by (simp add: tabulateRow_def Let_def foldl_total o_def)

lemma tabulate_body_dayCount:
  "body (tabulate rs fa fi)
   = map (\<lambda>(a, i, l).
            [Text a, Span i (friendlyNames (filterResults rs fa fi) i), Text (string_of_nat l)]
            @ map (\<lambda>d. Num (dayCount (groupRows (filterResults rs fa fi) a i l) d))
                (daysOf (filterResults rs fa fi))
            @ [Num (sum_list (map (dayCount (groupRows (filterResults rs fa fi) a i l))
                               (daysOf (filterResults rs fa fi))))])
       (groupKeys (filterResults rs fa fi))"
  by (simp only: tabulate_body tabulateRow_dayCount)

lemma tabulate_body_daySum:
  assumes "distinct (map (\<lambda>r. (agency r, issuer r, ial r, date r)) (filterResults rs fa fi))"
  shows "body (tabulate rs fa fi)
   = map (\<lambda>(a, i, l).
            [Text a, Span i (friendlyNames (filterResults rs fa fi) i), Text (string_of_nat l)]
            @ map (\<lambda>d. Num (daySum (groupRows (filterResults rs fa fi) a i l) d))
                (daysOf (filterResults rs fa fi))
            @ [Num (sum_list (map (daySum (groupRows (filterResults rs fa fi) a i l))
                               (daysOf (filterResults rs fa fi))))])
       (groupKeys (filterResults rs fa fi))"
  by (simp only: tabulate_body tabulateRow_daySum [OF assms])

text \<open>
  C1 (as the code has it): for every list of results the daily auths table has exactly
  one body row per group (agency, issuer, assurance level) of the filtered rows; the cell
  of a day column shows the count of the first row of the group whose date is exactly the
  date of the column (\<open>dayCount\<close>, 0 without such a row) and the last cell is the sum of
  the day cells. When no two rows of a group have the same date, the cell of a day is
  therefore the sum of the counts of the group's rows of that date (\<open>daySum\<close>) and the
  last cell their total. The day columns are the distinct dates of the filtered rows in
  ascending order. The table summed by agency has one row per (agency, assurance level)
  whose day cell is the sum of the counts of all the group's rows on that UTC day. The
  funnel aggregate has one row per issuer whose count of every step is the sum of that
  step's counts over the issuer's rows.
\<close>

theorem grouped_sums:
  "(\<exists>ks. distinct ks
      \<and> set ks = (\<lambda>r. (agency r, issuer r, ial r)) ` set (filterResults rs fa fi)
      \<and> body (tabulate rs fa fi)
        = map (\<lambda>(a, i, l).
                 [Text a, Span i (friendlyNames (filterResults rs fa fi) i),
                  Text (string_of_nat l)]
                 @ map (\<lambda>d. Num (dayCount (groupRows (filterResults rs fa fi) a i l) d))
                     (daysOf (filterResults rs fa fi))
                 @ [Num (sum_list (map (dayCount (groupRows (filterResults rs fa fi) a i l))
                                    (daysOf (filterResults rs fa fi))))])
            ks
      \<and> (distinct (map (\<lambda>r. (agency r, issuer r, ial r, date r)) (filterResults rs fa fi)) \<longrightarrow>
           body (tabulate rs fa fi)
           = map (\<lambda>(a, i, l).
                    [Text a, Span i (friendlyNames (filterResults rs fa fi) i),
                     Text (string_of_nat l)]
                    @ map (\<lambda>d. Num (daySum (groupRows (filterResults rs fa fi) a i l) d))
                        (daysOf (filterResults rs fa fi))
                    @ [Num (sum_list (map (daySum (groupRows (filterResults rs fa fi) a i l))
                                       (daysOf (filterResults rs fa fi))))])
               ks))
   \<and> sorted (daysOf (filterResults rs fa fi)) \<and> distinct (daysOf (filterResults rs fa fi))
   \<and> set (daysOf (filterResults rs fa fi)) = date ` set (filterResults rs fa fi)
   \<and> (\<exists>ks. distinct ks
         \<and> set ks = (\<lambda>r. (agency r, ial r)) ` set (filterByIal rs' fi')
         \<and> body (tabulateSumByAgency u rs' fi')
           = map (\<lambda>(a, l).
                    [Link (u a) a, Text (string_of_nat l)]
                    @ map (\<lambda>d. Num (agencyDaySum (filterByIal rs' fi') a l d))
                        (daysOf (filterByIal rs' fi'))
                    @ [Num (sum_list (map (agencyDaySum (filterByIal rs' fi') a l)
                                       (daysOf (filterByIal rs' fi'))))])
               ks)
   \<and> (\<exists>ks. distinct ks \<and> set ks = issuer ` set rows
         \<and> map (\<lambda>r. (issuer r, steps r)) (aggregate rows)
           = map (\<lambda>i. (i, \<lambda>k. Some (stepSum (rowsOfIssuer rows i) k))) ks)"
proof (intro conjI)
  let ?F = "filterResults rs fa fi"
  let ?key = "\<lambda>r. (agency r, issuer r, ial r, date r)"
  let ?counts = "map (\<lambda>(a, i, l).
                    [Text a, Span i (friendlyNames ?F i), Text (string_of_nat l)]
                    @ map (\<lambda>d. Num (dayCount (groupRows ?F a i l) d)) (daysOf ?F)
                    @ [Num (sum_list (map (dayCount (groupRows ?F a i l)) (daysOf ?F)))])"
  let ?sums = "map (\<lambda>(a, i, l).
                    [Text a, Span i (friendlyNames ?F i), Text (string_of_nat l)]
                    @ map (\<lambda>d. Num (daySum (groupRows ?F a i l) d)) (daysOf ?F)
                    @ [Num (sum_list (map (daySum (groupRows ?F a i l)) (daysOf ?F)))])"
  have 1: "distinct (groupKeys ?F)"
    by (rule groupKeys_distinct)
  have 2: "set (groupKeys ?F) = (\<lambda>r. (agency r, issuer r, ial r)) ` set ?F"
    by (rule groupKeys_set)
  have 3: "body (tabulate rs fa fi) = ?counts (groupKeys ?F)"
    by (rule tabulate_body_dayCount)
  have 4: "distinct (map ?key ?F) \<longrightarrow> body (tabulate rs fa fi) = ?sums (groupKeys ?F)"
    by (intro impI) (rule tabulate_body_daySum)
  from 1 2 3 4
  have "distinct (groupKeys ?F)
      \<and> set (groupKeys ?F) = (\<lambda>r. (agency r, issuer r, ial r)) ` set ?F
      \<and> body (tabulate rs fa fi) = ?counts (groupKeys ?F)
      \<and> (distinct (map ?key ?F) \<longrightarrow> body (tabulate rs fa fi) = ?sums (groupKeys ?F))"
    by (intro conjI)
  then show "\<exists>ks. distinct ks \<and> set ks = (\<lambda>r. (agency r, issuer r, ial r)) ` set ?F
         \<and> body (tabulate rs fa fi) = ?counts ks
         \<and> (distinct (map ?key ?F) \<longrightarrow> body (tabulate rs fa fi) = ?sums ks)"
    by (rule exI)
next
  show "sorted (daysOf (filterResults rs fa fi))"
    "distinct (daysOf (filterResults rs fa fi))"
    "set (daysOf (filterResults rs fa fi)) = date ` set (filterResults rs fa fi)"
    by (simp_all add: daysOf_eq)
next
  let ?F = "filterByIal rs' fi'"
  from agencyKeys_distinct [of ?F] agencyKeys_set [of ?F] tabulateSumByAgency_body [of u rs' fi']
  show "\<exists>ks. distinct ks \<and> set ks = (\<lambda>r. (agency r, ial r)) ` set ?F
         \<and> body (tabulateSumByAgency u rs' fi')
           = map (\<lambda>(a, l).
                    [Link (u a) a, Text (string_of_nat l)]
                    @ map (\<lambda>d. Num (agencyDaySum ?F a l d)) (daysOf ?F)
                    @ [Num (sum_list (map (agencyDaySum ?F a l) (daysOf ?F)))])
               ks"
    by blast
next
  have "distinct (sort (array_from_set (map issuer rows)))"
    "set (sort (array_from_set (map issuer rows))) = issuer ` set rows"
    by simp_all
  with aggregate_steps [of rows]
  show "\<exists>ks. distinct ks \<and> set ks = issuer ` set rows
         \<and> map (\<lambda>r. (issuer r, steps r)) (aggregate rows)
           = map (\<lambda>i. (i, \<lambda>k. Some (stepSum (rowsOfIssuer rows i) k))) ks"
    by blast
qed

lemma example_results_distinct:
  "distinct (map (\<lambda>r. (agency r, issuer r, ial r, date r))
     (filterResults (Some example_results) None None))"
  by (simp add: filterResults_def no_agency_filter_def no_ial_filter_def example_results_def)

theorem grouped_sums_witness:
  "(\<exists>ks. distinct ks
      \<and> set ks = (\<lambda>r. (agency r, issuer r, ial r))
                   ` set (filterResults (Some example_results) None None)
      \<and> body (tabulate (Some example_results) None None)
        = map (\<lambda>(a, i, l).
                 [Text a, Span i (friendlyNames (filterResults (Some example_results) None None) i),
                  Text (string_of_nat l)]
                 @ map (\<lambda>d. Num (daySum (groupRows
                                  (filterResults (Some example_results) None None) a i l) d))
                     (daysOf (filterResults (Some example_results) None None))
                 @ [Num (sum_list (map (daySum (groupRows
                                  (filterResults (Some example_results) None None) a i l))
                                    (daysOf (filterResults (Some example_results) None None))))])
            ks)
   \<and> daysOf (filterResults (Some example_results) None None) = [1609459200000, 1609545600000]
   \<and> (\<exists>ks. distinct ks
        \<and> set ks = (\<lambda>r. (agency r, issuer r, ial r))
                     ` set (filterResults (Some duplicate_results) None None)
        \<and> body (tabulate (Some duplicate_results) None None)
          = map (\<lambda>(a, i, l).
                   [Text a,
                    Span i (friendlyNames (filterResults (Some duplicate_results) None None) i),
                    Text (string_of_nat l)]
                   @ map (\<lambda>d. Num (dayCount (groupRows
                                    (filterResults (Some duplicate_results) None None) a i l) d))
                       (daysOf (filterResults (Some duplicate_results) None None))
                   @ [Num (sum_list (map (dayCount (groupRows
                                    (filterResults (Some duplicate_results) None None) a i l))
                                      (daysOf (filterResults (Some duplicate_results) None None))))])
              ks)"
proof -
  let ?E = "filterResults (Some example_results) None None"
  let ?D = "filterResults (Some duplicate_results) None None"
  let ?sums = "\<lambda>F. map (\<lambda>(a, i, l).
                 [Text a, Span i (friendlyNames F i), Text (string_of_nat l)]
                 @ map (\<lambda>d. Num (daySum (groupRows F a i l) d)) (daysOf F)
                 @ [Num (sum_list (map (daySum (groupRows F a i l)) (daysOf F)))])"
  let ?counts = "\<lambda>F. map (\<lambda>(a, i, l).
                 [Text a, Span i (friendlyNames F i), Text (string_of_nat l)]
                 @ map (\<lambda>d. Num (dayCount (groupRows F a i l) d)) (daysOf F)
                 @ [Num (sum_list (map (dayCount (groupRows F a i l)) (daysOf F)))])"
  let ?keys = "\<lambda>F. (\<lambda>r. (agency r, issuer r, ial r)) ` set F"
  have days: "daysOf ?E = [1609459200000, 1609545600000]"
    by (simp add: tabulate_eval example_results_def)
  have "\<exists>ks. distinct ks \<and> set ks = ?keys ?E
          \<and> body (tabulate (Some example_results) None None) = ?counts ?E ks
          \<and> (distinct (map (\<lambda>r. (agency r, issuer r, ial r, date r)) ?E) \<longrightarrow>
               body (tabulate (Some example_results) None None) = ?sums ?E ks)"
    by (rule conjunct1 [OF grouped_sums [of "Some example_results" None None]])
  then obtain ks where ks: "distinct ks \<and> set ks = ?keys ?E
          \<and> body (tabulate (Some example_results) None None) = ?counts ?E ks
          \<and> (distinct (map (\<lambda>r. (agency r, issuer r, ial r, date r)) ?E) \<longrightarrow>
               body (tabulate (Some example_results) None None) = ?sums ?E ks)" ..
  have k1: "distinct ks"
    by (rule conjunct1 [OF ks])
  have k2: "set ks = ?keys ?E"
    by (rule conjunct1 [OF conjunct2 [OF ks]])
  have k3: "body (tabulate (Some example_results) None None) = ?sums ?E ks"
    by (rule mp [OF conjunct2 [OF conjunct2 [OF conjunct2 [OF ks]]] example_results_distinct])
  have "distinct ks \<and> set ks = ?keys ?E
      \<and> body (tabulate (Some example_results) None None) = ?sums ?E ks"
    by (intro conjI k1 k2 k3)
  then have first: "\<exists>ks. distinct ks \<and> set ks = ?keys ?E
      \<and> body (tabulate (Some example_results) None None) = ?sums ?E ks"
    by (rule exI)
  have "\<exists>ks. distinct ks \<and> set ks = ?keys ?D
          \<and> body (tabulate (Some duplicate_results) None None) = ?counts ?D ks
          \<and> (distinct (map (\<lambda>r. (agency r, issuer r, ial r, date r)) ?D) \<longrightarrow>
               body (tabulate (Some duplicate_results) None None) = ?sums ?D ks)"
    by (rule conjunct1 [OF grouped_sums [of "Some duplicate_results" None None]])
  then obtain js where js: "distinct js \<and> set js = ?keys ?D
          \<and> body (tabulate (Some duplicate_results) None None) = ?counts ?D js
          \<and> (distinct (map (\<lambda>r. (agency r, issuer r, ial r, date r)) ?D) \<longrightarrow>
               body (tabulate (Some duplicate_results) None None) = ?sums ?D js)" ..
  have "distinct js \<and> set js = ?keys ?D
      \<and> body (tabulate (Some duplicate_results) None None) = ?counts ?D js"
    by (intro conjI conjunct1 [OF js] conjunct1 [OF conjunct2 [OF js]]
          conjunct1 [OF conjunct2 [OF conjunct2 [OF js]]])
  then have second: "\<exists>ks. distinct ks \<and> set ks = ?keys ?D
      \<and> body (tabulate (Some duplicate_results) None None) = ?counts ?D ks"
    by (rule exI)
  from first days second show ?thesis
    by (intro conjI)
qed

text \<open>
  C1 as stated fails for the daily auths table when a group has two rows of one day: the
  cell shows the count of the first, 1, and not the sum, 3.
\<close>

theorem duplicate_day_counterexample:
  "body (tabulate (Some duplicate_results) None None)
     = [[Text ''agency1'', Span ''issuer1'' (Some ''app1''), Text ''1'', Num 1, Num 1]]
   \<and> daySum (groupRows duplicate_results ''agency1'' ''issuer1'' 1) 1609459200000 = 3"
  by (simp add: tabulate_eval duplicate_results_def string_of_nat_1 daySum_def groupRows_def)

subsection \<open>Order of the rows\<close>

lemma tabulate_sorted_by_agency_name:
  "sorted (map (\<lambda>row. (cell_text (row ! 0), cell_text (row ! 1)))
     (body (tabulate_sorted rows m c)))"
  unfolding tabulate_sorted_body_keys sortRows_eq by (rule sorted_sort_key)

lemma case_sensitive_order: "''Zeta'' < ''alpha'' \<and> ''alpha'' < ''beta'' \<and> ''a'' < ''ab''"
  by simp

text \<open>
  C6 (as the code has it): the rows of the daily auths table are ascending by
  (agency, issuer), those of the table summed by agency by agency, those of the sorted
  funnel table by (agency, friendly name); strings compare by character code. The funnel
  aggregate is ascending by issuer, with one row per issuer, and the funnel table of
  daily-dropoffs-report.tsx keeps the order of the rows it is given, of which it shows
  those of the chosen agency.
\<close>

theorem rows_sorted:
  "sorted (map (\<lambda>row. (cell_text (row ! 0), cell_text (row ! 1))) (body (tabulate rs fa fi)))
   \<and> sorted (map (\<lambda>row. cell_text (row ! 0)) (body (tabulateSumByAgency u rs fi)))
   \<and> sorted (map (\<lambda>row. (cell_text (row ! 0), cell_text (row ! 1)))
               (body (tabulate_sorted rows m c)))
   \<and> sorted (map issuer (aggregate rows)) \<and> distinct (map issuer (aggregate rows))
   \<and> map (\<lambda>row. (cell_text (row ! 0), cell_text (row ! 1)))
       (body (tabulate_dropoffs (Some rows) m None c))
     = map (\<lambda>r. (agency r, friendly_name r)) rows
   \<and> map (\<lambda>row. (cell_text (row ! 0), cell_text (row ! 1)))
       (body (tabulate_dropoffs (Some rows) m f c))
     = map (\<lambda>r. (agency r, friendly_name r))
         (filter (\<lambda>r. no_agency_filter f \<or> Some (agency r) = f) rows)"
  using tabulate_sorted_by_agency_issuer [of rs fa fi] tabulateSumByAgency_sorted [of u rs fi]
    sorted_aggregate [of rows] tabulate_dropoffs_body_keys [of rows m None c]
    tabulate_dropoffs_body_keys [of rows m f c]
    tabulate_sorted_by_agency_name [of rows m c]
  by (simp add: no_agency_filter_def)

text \<open>
  C6 as stated fails for the funnel aggregate: it orders by issuer, so the agencies of its
  rows can descend.
\<close>

theorem aggregate_order_counterexample:
  "map (\<lambda>r. (agency r, issuer r)) (aggregate unsorted_agency_rows)
     = [(''z'', ''a''), (''y'', ''b'')]
   \<and> \<not> sorted (map agency (aggregate unsorted_agency_rows))"
  by (simp add: aggregate_def unsorted_agency_rows_def d3_group_def sort_by_def js_or_def
      ascending_def binRow_def)

subsection \<open>Aggregating twice\<close>

text \<open>
  C10: aggregating the output of the funnel aggregate returns it unchanged; the output
  has one row per issuer of the input.
\<close>

theorem aggregate_idempotent:
  "aggregate (aggregate rows) = aggregate rows
   \<and> distinct (map issuer (aggregate rows))
   \<and> set (map issuer (aggregate rows)) = issuer ` set rows"
  by (simp add: aggregate_aggregate issuers_aggregate)

subsection \<open>Aggregation and the agency filter\<close>

lemma friendlyNames_snoc:
  "friendlyNames (xs @ [x]) = (friendlyNames xs)(issuer x \<mapsto> friendly_name x)"
  by (simp add: friendlyNames_def)

lemma friendlyNames_eq:
  "friendlyNames xs i =
     (if filter (\<lambda>r. issuer r = i) xs = [] then None
      else Some (friendly_name (last (filter (\<lambda>r. issuer r = i) xs))))"
proof (induction xs rule: rev_induct)
  case Nil
  show ?case by (simp add: friendlyNames_def)
next
  case (snoc x xs)
  then show ?case
    by (simp add: friendlyNames_snoc)
qed

lemma filter_fst_pairs:
  "filter (\<lambda>(x, y). x = a) (concat (map (\<lambda>x. map (Pair x) (h x)) xs))
   = concat (map (\<lambda>x. map (Pair x) (h x)) (filter (\<lambda>x. x = a) xs))"
  by (induction xs) (auto simp: filter_empty_conv)

lemma filterResults_agency:
  "a \<noteq> '''' \<Longrightarrow>
   filterResults rs (Some a) fi = filter (\<lambda>r. agency r = a) (filterResults rs None fi)"
  by (auto simp: filterResults_def no_agency_filter_def intro: filter_cong)

lemma groupKeys_filter:
  "groupKeys (filter (\<lambda>r. agency r = a) rows) = filter (\<lambda>(x, y). x = a) (groupKeys rows)"
proof -
  let ?Fa = "filter (\<lambda>r. agency r = a) rows"
  let ?h = "\<lambda>rows a. concat (map (\<lambda>i. map (Pair i)
                (array_from_set (map ial (filter (\<lambda>r. agency r = a \<and> issuer r = i) rows))))
              (sort (array_from_set (map issuer (filter (\<lambda>r. agency r = a) rows)))))"
  have keys: "sort (array_from_set (map agency ?Fa))
      = filter (\<lambda>x. x = a) (sort (array_from_set (map agency rows)))"
  proof -
    have "map agency ?Fa = filter (\<lambda>x. x = a) (map agency rows)"
      by (simp add: filter_map o_def)
    then show ?thesis
      by (simp only: array_from_set_filter filter_sort)
  qed
  have inner: "?h ?Fa x = ?h rows x" if "x = a" for x
  proof -
    have "filter (\<lambda>r. agency r = a \<and> issuer r = i) ?Fa
        = filter (\<lambda>r. agency r = a \<and> issuer r = i) rows" for i
      by (simp add: conj_commute)
    moreover have "filter (\<lambda>r. agency r = a) ?Fa = ?Fa"
      by simp
    ultimately show ?thesis
      using that by simp
  qed
  have "groupKeys ?Fa
      = concat (map (\<lambda>x. map (Pair x) (?h ?Fa x))
          (filter (\<lambda>x. x = a) (sort (array_from_set (map agency rows)))))"
    unfolding groupKeys_def keys ..
  also have "\<dots> = concat (map (\<lambda>x. map (Pair x) (?h rows x))
          (filter (\<lambda>x. x = a) (sort (array_from_set (map agency rows)))))"
    by (rule arg_cong [where f = concat], rule map_cong [OF refl]) (simp add: inner)
  also have "\<dots> = filter (\<lambda>(x, y). x = a) (groupKeys rows)"
    unfolding groupKeys_def by (rule filter_fst_pairs [symmetric])
  finally show ?thesis .
qed

lemma tabulate_filter_agency:
  assumes a: "a \<noteq> ''''"
    and fd: "\<forall>r \<in> set (filterResults rs None fi). \<forall>r' \<in> set (filterResults rs None fi).
               issuer r = issuer r' \<longrightarrow> agency r = agency r'"
    and days: "daysOf (filterResults rs (Some a) fi) = daysOf (filterResults rs None fi)"
  shows "body (tabulate rs (Some a) fi)
       = filter (\<lambda>row. cell_text (row ! 0) = a) (body (tabulate rs None fi))"
proof -
  let ?F = "filterResults rs None fi"
  let ?Fa = "filter (\<lambda>r. agency r = a) ?F"
  let ?R = "\<lambda>F (a, i, l). tabulateRow (daysOf F) (friendlyNames F) a i l (groupRows F a i l)"
  have Fa: "filterResults rs (Some a) fi = ?Fa"
    using a by (rule filterResults_agency)
  have row: "?R ?Fa k = ?R ?F k" if k: "k \<in> set (groupKeys ?Fa)" for k
  proof -
    obtain x i l where kx: "k = (x, i, l)"
      by (cases k)
    from k obtain r where r: "r \<in> set ?F" "agency r = a" "k = (agency r, issuer r, ial r)"
      by (auto simp: groupKeys_set)
    with kx have x: "x = a" and i: "issuer r = i"
      by simp_all
    have "filter (\<lambda>r. issuer r = i) ?Fa = filter (\<lambda>r. issuer r = i) ?F"
    proof -
      have "filter (\<lambda>r'. agency r' = a \<and> issuer r' = i) ?F = filter (\<lambda>r'. issuer r' = i) ?F"
        by (rule filter_cong [OF refl]) (use fd r i in metis)
      then show ?thesis
        by simp
    qed
    then have names: "friendlyNames ?Fa i = friendlyNames ?F i"
      by (simp add: friendlyNames_eq)
    have rows: "groupRows ?Fa a i l = groupRows ?F a i l"
      by (simp add: groupRows_def)
    from days have "daysOf ?Fa = daysOf ?F"
      by (simp only: Fa)
    with names rows show ?thesis
      by (simp add: kx x tabulateRow_def)
  qed
  have "body (tabulate rs (Some a) fi) = map (?R ?Fa) (groupKeys ?Fa)"
    by (simp only: tabulate_body Fa)
  also have "\<dots> = map (?R ?F) (groupKeys ?Fa)"
    by (rule map_cong [OF refl]) (rule row)
  also have "\<dots> = map (?R ?F) (filter (\<lambda>(x, y). x = a) (groupKeys ?F))"
    by (simp only: groupKeys_filter)
  also have "\<dots> = filter (\<lambda>row. cell_text (row ! 0) = a) (map (?R ?F) (groupKeys ?F))"
    by (simp add: filter_map o_def case_prod_unfold)
  also have "\<dots> = filter (\<lambda>row. cell_text (row ! 0) = a) (body (tabulate rs None fi))"
    by (simp only: tabulate_body)
  finally show ?thesis .
qed

text \<open>
  C9 (as the code has it): when all rows of an issuer name the same agency, aggregating
  the funnel rows and then keeping the rows of an agency gives the same rows as keeping
  the agency's rows first and aggregating them. For the daily auths table, which filters
  before it groups: under the same condition on the rows, and when the agency has a row
  on every day of the table, the table of the agency is the table of all agencies
  restricted to the agency's rows.
\<close>

theorem aggregate_then_filter:
  "((\<forall>r \<in> set rows. \<forall>r' \<in> set rows. issuer r = issuer r' \<longrightarrow> agency r = agency r') \<longrightarrow>
      filter (\<lambda>r. agency r = a) (aggregate rows)
        = aggregate (filter (\<lambda>r. agency r = a) rows))
   \<and> (b \<noteq> ''''
       \<and> (\<forall>r \<in> set (filterResults rs None fi). \<forall>r' \<in> set (filterResults rs None fi).
             issuer r = issuer r' \<longrightarrow> agency r = agency r')
       \<and> daysOf (filterResults rs (Some b) fi) = daysOf (filterResults rs None fi) \<longrightarrow>
      body (tabulate rs (Some b) fi)
        = filter (\<lambda>row. cell_text (row ! 0) = b) (body (tabulate rs None fi)))"
proof (intro conjI impI)
  assume "\<forall>r \<in> set rows. \<forall>r' \<in> set rows. issuer r = issuer r' \<longrightarrow> agency r = agency r'"
  then show "filter (\<lambda>r. agency r = a) (aggregate rows)
        = aggregate (filter (\<lambda>r. agency r = a) rows)"
    by (rule aggregate_filter_agency)
next
  assume h: "b \<noteq> ''''
       \<and> (\<forall>r \<in> set (filterResults rs None fi). \<forall>r' \<in> set (filterResults rs None fi).
             issuer r = issuer r' \<longrightarrow> agency r = agency r')
       \<and> daysOf (filterResults rs (Some b) fi) = daysOf (filterResults rs None fi)"
  from h have h1: "b \<noteq> ''''"
    by (rule conjunct1)
  from h have h2: "\<forall>r \<in> set (filterResults rs None fi). \<forall>r' \<in> set (filterResults rs None fi).
             issuer r = issuer r' \<longrightarrow> agency r = agency r'"
    by (rule conjunct1 [OF conjunct2])
  from h have h3: "daysOf (filterResults rs (Some b) fi) = daysOf (filterResults rs None fi)"
    by (rule conjunct2 [OF conjunct2])
  show "body (tabulate rs (Some b) fi)
        = filter (\<lambda>row. cell_text (row ! 0) = b) (body (tabulate rs None fi))"
    by (rule tabulate_filter_agency [OF h1 h2 h3])
qed

theorem aggregate_then_filter_witness:
  "filter (\<lambda>r. agency r = ''y'') (aggregate unsorted_agency_rows)
     = aggregate (filter (\<lambda>r. agency r = ''y'') unsorted_agency_rows)
   \<and> map issuer (aggregate (filter (\<lambda>r. agency r = ''y'') unsorted_agency_rows)) = [''b'']
   \<and> body (tabulate (Some test_results) (Some ''agency1'') None)
     = filter (\<lambda>row. cell_text (row ! 0) = ''agency1'')
         (body (tabulate (Some test_results) None None))
   \<and> map (\<lambda>row. cell_text (row ! 0)) (body (tabulate (Some test_results) None None))
     = [''agency1'', ''agency1'', ''agency2'']"
proof -
  note w = aggregate_then_filter [of unsorted_agency_rows "''y''" "''agency1''"
      "Some test_results" None]
  have 1: "map issuer (aggregate (filter (\<lambda>r. agency r = ''y'') unsorted_agency_rows)) = [''b'']"
    by (simp add: issuers_aggregate unsorted_agency_rows_def array_from_set_def)
  have 2: "''agency1'' \<noteq> ''''
       \<and> (\<forall>r \<in> set (filterResults (Some test_results) None None).
           \<forall>r' \<in> set (filterResults (Some test_results) None None).
             issuer r = issuer r' \<longrightarrow> agency r = agency r')
       \<and> daysOf (filterResults (Some test_results) (Some ''agency1'') None)
           = daysOf (filterResults (Some test_results) None None)"
    by (simp add: filterResults_def no_agency_filter_def no_ial_filter_def test_results_def
          daysOf_def array_from_set_def sort_by_def)
  have 4: "map (\<lambda>row. cell_text (row ! 0)) (body (tabulate (Some test_results) None None))
     = [''agency1'', ''agency1'', ''agency2'']"
    by (simp add: tabulate_eval test_results_def)
  have 3: "\<forall>r \<in> set unsorted_agency_rows. \<forall>r' \<in> set unsorted_agency_rows.
             issuer r = issuer r' \<longrightarrow> agency r = agency r'"
    by (simp add: unsorted_agency_rows_def)
  have "filter (\<lambda>r. agency r = ''y'') (aggregate unsorted_agency_rows)
     = aggregate (filter (\<lambda>r. agency r = ''y'') unsorted_agency_rows)"
    by (rule mp [OF conjunct1 [OF w] 3])
  moreover have "body (tabulate (Some test_results) (Some ''agency1'') None)
     = filter (\<lambda>row. cell_text (row ! 0) = ''agency1'')
         (body (tabulate (Some test_results) None None))"
    by (rule mp [OF conjunct2 [OF w] 2])
  ultimately show ?thesis
    using 1 4 by (intro conjI)
qed

text \<open>
  C9 as stated fails when an issuer's rows name two agencies: the aggregated row carries
  the agency of the issuer's first row, so filtering afterwards for the other agency
  loses the issuer, while filtering first keeps the rows of that agency.
\<close>

theorem moved_issuer_counterexample:
  "filter (\<lambda>r. agency r = ''agency2'') (aggregate moved_issuer_rows) = []
   \<and> map (\<lambda>r. (issuer r, agency r))
       (aggregate (filter (\<lambda>r. agency r = ''agency2'') moved_issuer_rows))
     = [(''issuer1'', ''agency2'')]"
  by (simp add: aggregate_def moved_issuer_rows_def d3_group_def sort_by_def js_or_def
      ascending_def binRow_def)

text \<open>
  In the test rows \<open>agency2\<close> has no row on the second day: its own table has one day
  column, its row in the table of all agencies has two.
\<close>

lemma filtered_date_axis_example:
  "body (tabulate (Some test_results) (Some ''agency2'') None)
     = [[Text ''agency2'', Span ''issuer2'' (Some ''app2''), Text ''1'', Num 1000, Num 1000]]
   \<and> filter (\<lambda>row. cell_text (row ! 0) = ''agency2'') (body (tabulate (Some test_results) None None))
     = [[Text ''agency2'', Span ''issuer2'' (Some ''app2''), Text ''1'', Num 1000, Num 0,
         Num 1000]]"
  by (simp add: tabulate_eval test_results_def string_of_nat_1 string_of_nat_2)

subsection \<open>Failure of a day\<close>

lemma day_promise_rejected:
  assumes "path \<in> set paths"
    and "snd (fetch path) = Inl e0 \<or> (\<exists>response. snd (fetch path) = Inr response \<and> snd (body_of response) = Inl e0)"
  shows "\<exists>t0. (t0, Inl e0) \<in> set (map (\<lambda>path. then_promise (fetch path) body_of) paths)"
proof -
  from assms(2) have "snd (then_promise (fetch path) body_of) = Inl e0"
    by (simp add: then_promise_rejects)
  then have "then_promise (fetch path) body_of = (fst (then_promise (fetch path) body_of), Inl e0)"
    by (simp add: prod_eq_iff)
  with assms(1) show ?thesis
    by (metis (no_types, lifting) image_eqI list.set_map)
qed

text \<open>
  C5: if the fetch of any single day or the parse of its response fails, the promise that
  the loader returns rejects, with the rejection that settled first among the days; a
  rejected promise carries no rows of any day.
\<close>

theorem loader_rejects_as_a_whole:
  "(path \<in> set (requests reportPath start finish env)
      \<and> (snd (fetch path) = Inl e0
          \<or> (\<exists>response. snd (fetch path) = Inr response \<and> snd (json response) = Inl e0)) \<longrightarrow>
      (\<exists>t e. loadData fetch reportPath start finish env = (t, Inl e)
         \<and> (t, Inl e) \<in> set (dayReports fetch reportPath start finish env)
         \<and> (\<forall>t' e'. (t', Inl e') \<in> set (dayReports fetch reportPath start finish env)
               \<longrightarrow> t \<le> t')))
   \<and> (path' \<in> set (requests_dropoffs reportPath start finish env)
      \<and> (snd (fetch path') = Inl e1
          \<or> (\<exists>response. snd (fetch path') = Inr response
                \<and> snd (text_body response) = Inl e1)) \<longrightarrow>
      (\<exists>t e. loadData_dropoffs fetch reportPath csvParse start finish env = (t, Inl e)
         \<and> (t, Inl e) \<in> set (dayTexts fetch reportPath start finish env)
         \<and> (\<forall>t' e'. (t', Inl e') \<in> set (dayTexts fetch reportPath start finish env)
               \<longrightarrow> t \<le> t')))"
proof (intro conjI impI)
  assume "path \<in> set (requests reportPath start finish env)
      \<and> (snd (fetch path) = Inl e0
          \<or> (\<exists>response. snd (fetch path) = Inr response \<and> snd (json response) = Inl e0))"
  then obtain t0 where "(t0, Inl e0) \<in> set (dayReports fetch reportPath start finish env)"
    unfolding dayReports_def using day_promise_rejected [of path _ fetch e0 json] by blast
  from promise_all_rejects [OF this]
  show "\<exists>t e. loadData fetch reportPath start finish env = (t, Inl e)
         \<and> (t, Inl e) \<in> set (dayReports fetch reportPath start finish env)
         \<and> (\<forall>t' e'. (t', Inl e') \<in> set (dayReports fetch reportPath start finish env)
               \<longrightarrow> t \<le> t')"
    by (auto simp: loadData_def then_value_rejected)
next
  assume "path' \<in> set (requests_dropoffs reportPath start finish env)
      \<and> (snd (fetch path') = Inl e1
          \<or> (\<exists>response. snd (fetch path') = Inr response
                \<and> snd (text_body response) = Inl e1))"
  then obtain t1 where "(t1, Inl e1) \<in> set (dayTexts fetch reportPath start finish env)"
    unfolding dayTexts_def using day_promise_rejected [of path' _ fetch e1 text_body] by blast
  from promise_all_rejects [OF this]
  show "\<exists>t e. loadData_dropoffs fetch reportPath csvParse start finish env = (t, Inl e)
         \<and> (t, Inl e) \<in> set (dayTexts fetch reportPath start finish env)
         \<and> (\<forall>t' e'. (t', Inl e') \<in> set (dayTexts fetch reportPath start finish env)
               \<longrightarrow> t \<le> t')"
    by (auto simp: loadData_dropoffs_def then_value_rejected)
qed

theorem loader_rejects_as_a_whole_witness:
  "loadData example_fetch example_reportPath 1609459200000 1609632000000 ''prod''
     = (10, Inl (NetworkError ''daily-auths-report/2021-01-02.json?env=prod''))
   \<and> loadData_dropoffs example_fetch example_reportPath (\<lambda>s. [example_parsed_row])
       1609459200000 1609632000000 ''prod''
     = (10, Inl (NetworkError ''daily-dropoffs-report/2021-01-02.csv?env=prod''))"
  using loader_rejects_as_a_whole [of "''daily-auths-report/2021-01-02.json?env=prod''"
      example_reportPath 1609459200000 1609632000000 "''prod''" example_fetch
      "NetworkError ''daily-auths-report/2021-01-02.json?env=prod''"
      "''daily-dropoffs-report/2021-01-02.csv?env=prod''"
      "NetworkError ''daily-dropoffs-report/2021-01-02.csv?env=prod''"
      "\<lambda>s. [example_parsed_row]"]
  by (auto simp: example_dayReports example_dayTexts example_requests
      example_requests_dropoffs example_fetch_def)

end
